theory Spec2Isabelle
  imports Main "HOL-Library.Multiset" "HOL-Library.Word" "HOL-Library.AList"
begin

unbundle bit_operations_syntax

section \<open>Code streams, errors and helper arithmetic\<close>

text \<open>
  The generator writes text to a \<open>CodeStream\<close> with \<open>operator<<\<close>. A stream is modelled as
  the list of the items inserted so far, in order: a string, an unsigned number
  (\<open>size_t\<close> or \<open>unsigned int\<close>, inserted in decimal by the C++ stream), \<open>std::endl\<close>,
  the explicit brace tokens \<open>CodeStream::OB(id)\<close> and \<open>CodeStream::CB(id)\<close>, and the brace
  pair written by the constructor and the destructor of a \<open>CodeStream::Scope\<close> object.
  Every write appends. Lengths of strings and of vectors (\<open>size_t\<close>) are natural numbers:
  they are bounded by the memory that holds the container. The running thread id of
  \<open>genParallelGroup\<close>, which adds up sizes that a caller supplies, is reduced modulo
  \<open>2^64\<close> as \<open>size_t\<close> arithmetic does.
\<close>

datatype tok = Str string | Num nat | Endl | OB nat | CB nat | ScopeOpen | ScopeClose

type_synonym CodeStream = "tok list"

text \<open>Exceptions, failed assertions and undefined operations of the C++ code, as values.\<close>

datatype error =
    ToBeImplemented string
  | RuntimeError string
  | OutOfRange
  | DivisionByZero
  | AssertionFailed
  | SubstitutionError string

text \<open>
  Modelled from the spec: \<open>ceilDivide\<close> is declared in \<open>gennUtils.h\<close>, which is not among
  the sources; the spec calls it \<open>ceilDiv\<close>, the quotient rounded up. A zero denominator
  is an integer division by zero.
\<close>

definition ceilDivide :: "nat \<Rightarrow> nat \<Rightarrow> error + nat" where
  "ceilDivide numerator denominator =
     (if denominator = 0 then Inl DivisionByZero
      else Inr ((numerator + denominator - 1) div denominator))"

text \<open>\<open>std::string::substr(pos, n)\<close>: throws \<open>std::out_of_range\<close> when \<open>pos > size()\<close>.\<close>

definition substr :: "string \<Rightarrow> nat \<Rightarrow> nat \<Rightarrow> error + string" where
  "substr s pos n = (if length s < pos then Inl OutOfRange else Inr (take n (drop pos s)))"

section \<open>Splitting a kernel source into raw string literals\<close>

definition rawOpen :: string where
  \<open>rawOpen = ''R"(''\<close>

definition rawClose :: string where
  \<open>rawClose = '')"''\<close>

text \<open>The \<open>for\<close> loop of \<open>Backend::divideKernelStreamInParts\<close>, from index \<open>i\<close> on.\<close>

function divideKernelStreamInParts_loop ::
  "CodeStream \<Rightarrow> string \<Rightarrow> nat \<Rightarrow> nat \<Rightarrow> nat \<Rightarrow> error + CodeStream" where
  "divideKernelStreamInParts_loop os kernelStr partLength parts i =
     (if i < parts then
        (case substr kernelStr (i * partLength) partLength of
           Inl e \<Rightarrow> Inl e
         | Inr part \<Rightarrow>
             divideKernelStreamInParts_loop (os @ [Str rawOpen, Str part, Str rawClose, Endl])
               kernelStr partLength parts (Suc i))
      else Inr os)"
  by pat_completeness auto
termination
  by (relation "measure (\<lambda>(os, kernelStr, partLength, parts, i). parts - i)") auto

declare divideKernelStreamInParts_loop.simps [simp del]

definition divideKernelStreamInParts :: "CodeStream \<Rightarrow> string \<Rightarrow> nat \<Rightarrow> error + CodeStream" where
  "divideKernelStreamInParts os kernelStr partLength =
     (case ceilDivide (length kernelStr) partLength of
        Inl e \<Rightarrow> Inl e
      | Inr parts \<Rightarrow> divideKernelStreamInParts_loop os kernelStr partLength parts 0)"

text \<open>One emitted chunk: the raw string literal around \<open>part\<close>, then a line end.\<close>

definition rawChunk :: "string \<Rightarrow> CodeStream" where
  "rawChunk part = [Str rawOpen, Str part, Str rawClose, Endl]"

subsection \<open>Round trip of the chunks\<close>

lemma concat_parts_take:
  "concat (map (\<lambda>j. take pl (drop (j * pl) s)) [0..<n]) = take (n * pl) s"
proof (induction n)
  case 0
  show ?case by simp
next
  case (Suc n)
  have "take (n * pl + pl) s = take (n * pl) s @ take pl (drop (n * pl) s)"
    by (rule take_add)
  then have "take (Suc n * pl) s = take (n * pl) s @ take pl (drop (n * pl) s)"
    by (simp add: add.commute)
  with Suc show ?case by simp
qed

lemma divide_loop_closed:
  assumes "parts * partLength < length kernelStr + partLength" and "i \<le> parts"
  shows "divideKernelStreamInParts_loop os kernelStr partLength parts i =
           Inr (os @ concat (map (\<lambda>j. rawChunk (take partLength (drop (j * partLength) kernelStr)))
                              [i..<parts]))"
  using assms
proof (induction os kernelStr partLength parts i rule: divideKernelStreamInParts_loop.induct)
  case (1 os kernelStr partLength parts i)
  show ?case
  proof (cases "i < parts")
    case False
    with "1.prems" show ?thesis
      by (simp add: divideKernelStreamInParts_loop.simps)
  next
    case True
    then have "Suc i * partLength \<le> parts * partLength"
      by (intro mult_le_mono1) simp
    with "1.prems" have inrange: "i * partLength \<le> length kernelStr"
      by simp
    then have sub: "substr kernelStr (i * partLength) partLength =
                      Inr (take partLength (drop (i * partLength) kernelStr))"
      by (simp add: substr_def)
    have step: "divideKernelStreamInParts_loop os kernelStr partLength parts i =
          divideKernelStreamInParts_loop
            (os @ rawChunk (take partLength (drop (i * partLength) kernelStr)))
            kernelStr partLength parts (Suc i)"
      using True sub
      by (subst divideKernelStreamInParts_loop.simps) (simp add: rawChunk_def)
    have ih: "divideKernelStreamInParts_loop
            (os @ rawChunk (take partLength (drop (i * partLength) kernelStr)))
            kernelStr partLength parts (Suc i) =
          Inr ((os @ rawChunk (take partLength (drop (i * partLength) kernelStr))) @
               concat (map (\<lambda>j. rawChunk (take partLength (drop (j * partLength) kernelStr)))
                        [Suc i..<parts]))"
      using "1.IH" [OF True sub] "1.prems" True
      by (simp add: rawChunk_def)
    show ?thesis
      using True by (simp add: step ih upt_conv_Cons)
  qed
qed

lemma ceil_bounds:
  assumes "0 < (d::nat)"
  shows "n \<le> ((n + d - 1) div d) * d" and "((n + d - 1) div d) * d < n + d"
proof -
  have eq: "((n + d - 1) div d) * d + (n + d - 1) mod d = n + d - 1"
    by (simp add: div_mult_mod_eq)
  have lt: "(n + d - 1) mod d < d"
    using assms by simp
  show "n \<le> ((n + d - 1) div d) * d"
    using eq lt by linarith
  show "((n + d - 1) div d) * d < n + d"
    using eq assms by linarith
qed

text \<open>
  C8. For a positive part length (the generator passes 5000),
  \<open>divideKernelStreamInParts\<close> returns normally and appends one raw-string chunk per part:
  the number of chunks is the length of the source divided by the part length, rounded up;
  no chunk is longer than the part length; and the chunk contents, concatenated in order,
  are exactly the kernel source.
\<close>

theorem divideKernelStreamInParts_roundtrip:
  assumes "0 < partLength"
  shows "\<exists>chunks.
           divideKernelStreamInParts os kernelStr partLength =
             Inr (os @ concat (map rawChunk chunks)) \<and>
           length chunks = (length kernelStr + partLength - 1) div partLength \<and>
           length kernelStr \<le> length chunks * partLength \<and>
           length chunks * partLength < length kernelStr + partLength \<and>
           (\<forall>c \<in> set chunks. length c \<le> partLength) \<and>
           concat chunks = kernelStr"
proof -
  define parts where "parts = (length kernelStr + partLength - 1) div partLength"
  define chunks where
    "chunks = map (\<lambda>j. take partLength (drop (j * partLength) kernelStr)) [0..<parts]"
  have lo: "length kernelStr \<le> parts * partLength"
    and hi: "parts * partLength < length kernelStr + partLength"
    using ceil_bounds [OF assms, of "length kernelStr"] by (simp_all add: parts_def)
  have "divideKernelStreamInParts os kernelStr partLength =
          divideKernelStreamInParts_loop os kernelStr partLength parts 0"
    using assms by (simp add: divideKernelStreamInParts_def ceilDivide_def parts_def)
  also have "\<dots> = Inr (os @ concat (map rawChunk chunks))"
    using divide_loop_closed [OF hi, of 0 os] by (simp add: chunks_def comp_def)
  finally have run: "divideKernelStreamInParts os kernelStr partLength =
                       Inr (os @ concat (map rawChunk chunks))" .
  have len: "length chunks = parts"
    by (simp add: chunks_def)
  have short: "\<forall>c \<in> set chunks. length c \<le> partLength"
    by (auto simp: chunks_def)
  have "concat chunks = take (parts * partLength) kernelStr"
    unfolding chunks_def by (rule concat_parts_take)
  with lo have whole: "concat chunks = kernelStr"
    by simp
  show ?thesis
    using run len short whole lo hi by (intro exI [of _ chunks]) (simp add: parts_def)
qed

theorem divideKernelStreamInParts_roundtrip_witness:
  "(0::nat) < 3 \<and>
   (\<exists>chunks.
      divideKernelStreamInParts [] ''abcdefg'' 3 = Inr ([] @ concat (map rawChunk chunks)) \<and>
      length chunks = (length ''abcdefg'' + 3 - 1) div 3 \<and>
      length ''abcdefg'' \<le> length chunks * 3 \<and>
      length chunks * 3 < length ''abcdefg'' + 3 \<and>
      (\<forall>c \<in> set chunks. length c \<le> 3) \<and>
      concat chunks = ''abcdefg'')"
  using divideKernelStreamInParts_roundtrip [of 3 "[]" "''abcdefg''"] by simp

section \<open>Extra global parameter push and pull\<close>

text \<open>
  \<open>VarLocation\<close> is a scoped enumeration of flag bits whose declaration is not among the
  sources. A location is modelled as the byte of its flags, the flag \<open>ZERO_COPY\<close> that
  the two functions test is a parameter, and \<open>locA & locB\<close> holds when the two locations
  share a flag.
\<close>

type_synonym VarLocation = "8 word"

definition varLocationAnd :: "VarLocation \<Rightarrow> VarLocation \<Rightarrow> bool" where
  "varLocationAnd locA locB = (locA AND locB \<noteq> 0)"

text \<open>
  The stream is passed by reference, so a call leaves a stream behind whether it returns
  or throws: the result is the stream after the call and the exception thrown, if any.
\<close>

definition genExtraGlobalParamPush ::
  "VarLocation \<Rightarrow> CodeStream \<Rightarrow> string \<Rightarrow> string \<Rightarrow> VarLocation \<Rightarrow> string \<Rightarrow> string \<Rightarrow>
     CodeStream \<times> error option" where
  "genExtraGlobalParamPush ZERO_COPY os type name loc countVarName prefix =
     (if \<not> varLocationAnd loc ZERO_COPY
      then (os, Some (ToBeImplemented ''genExtraGlobalParamPush''))
      else (os, None))"

definition genExtraGlobalParamPull ::
  "VarLocation \<Rightarrow> CodeStream \<Rightarrow> string \<Rightarrow> string \<Rightarrow> VarLocation \<Rightarrow> string \<Rightarrow> string \<Rightarrow>
     CodeStream \<times> error option" where
  "genExtraGlobalParamPull ZERO_COPY os type name loc countVarName prefix =
     (if \<not> varLocationAnd loc ZERO_COPY
      then (os, Some (ToBeImplemented ''genExtraGlobalParamPull''))
      else (os, None))"

text \<open>
  C9. For every location, \<open>genExtraGlobalParamPush\<close> and \<open>genExtraGlobalParamPull\<close> throw
  the \<open>ToBeImplemented\<close> error carrying their own name exactly when the location shares
  no bit with \<open>ZERO_COPY\<close>, they return normally exactly when it does, and in both cases
  the code stream is left as it was.
\<close>

theorem genExtraGlobalParam_throws_iff_not_zero_copy:
  "(snd (genExtraGlobalParamPush ZERO_COPY os type name loc countVarName prefix) =
      Some (ToBeImplemented ''genExtraGlobalParamPush'') \<longleftrightarrow> loc AND ZERO_COPY = 0) \<and>
   (snd (genExtraGlobalParamPush ZERO_COPY os type name loc countVarName prefix) = None
      \<longleftrightarrow> loc AND ZERO_COPY \<noteq> 0) \<and>
   fst (genExtraGlobalParamPush ZERO_COPY os type name loc countVarName prefix) = os \<and>
   (snd (genExtraGlobalParamPull ZERO_COPY os type name loc countVarName prefix) =
      Some (ToBeImplemented ''genExtraGlobalParamPull'') \<longleftrightarrow> loc AND ZERO_COPY = 0) \<and>
   (snd (genExtraGlobalParamPull ZERO_COPY os type name loc countVarName prefix) = None
      \<longleftrightarrow> loc AND ZERO_COPY \<noteq> 0) \<and>
   fst (genExtraGlobalParamPull ZERO_COPY os type name loc countVarName prefix) = os"
  by (simp add: genExtraGlobalParamPush_def genExtraGlobalParamPull_def varLocationAnd_def)

theorem genExtraGlobalParam_throws_iff_not_zero_copy_witness:
  "genExtraGlobalParamPush 4 [Str ''x''] ''float*'' ''g'' 3 ''n'' ''d_'' =
     ([Str ''x''], Some (ToBeImplemented ''genExtraGlobalParamPush'')) \<and>
   genExtraGlobalParamPush 4 [Str ''x''] ''float*'' ''g'' 7 ''n'' ''d_'' = ([Str ''x''], None) \<and>
   genExtraGlobalParamPull 4 [Str ''x''] ''float*'' ''g'' 3 ''n'' ''d_'' =
     ([Str ''x''], Some (ToBeImplemented ''genExtraGlobalParamPull'')) \<and>
   genExtraGlobalParamPull 4 [Str ''x''] ''float*'' ''g'' 7 ''n'' ''d_'' = ([Str ''x''], None)"
proof -
  have a: "(3::8 word) AND 4 = 0" and b: "(7::8 word) AND 4 \<noteq> 0"
    by simp_all
  note t3 = genExtraGlobalParam_throws_iff_not_zero_copy
    [of 4 "[Str ''x'']" "''float*''" "''g''" 3 "''n''" "''d_''"]
  note t7 = genExtraGlobalParam_throws_iff_not_zero_copy
    [of 4 "[Str ''x'']" "''float*''" "''g''" 7 "''n''" "''d_''"]
  show ?thesis
    using t3 t7 a b by (simp add: prod_eq_iff)
qed

section \<open>Choosing the presynaptic update strategy\<close>

text \<open>
  A strategy is an object with a virtual \<open>isCompatible\<close>; the classes are declared
  elsewhere. The strategy type and \<open>isCompatible\<close> are parameters, and so is \<open>getName\<close>
  of a synapse group. The registry \<open>s_PresynapticUpdateStrategies\<close> is the list of the
  registered strategies in registration order; \<open>scanStrategies\<close> is the loop, run over the
  registry from \<open>rbegin()\<close> to \<open>rend()\<close>.
\<close>

fun scanStrategies :: "('s \<Rightarrow> 'g \<Rightarrow> bool) \<Rightarrow> 's list \<Rightarrow> 'g \<Rightarrow> 's option" where
  "scanStrategies isCompatible [] sg = None"
| "scanStrategies isCompatible (s # ss) sg =
     (if isCompatible s sg then Some s else scanStrategies isCompatible ss sg)"

definition getPresynapticUpdateStrategy ::
  "('s \<Rightarrow> 'g \<Rightarrow> bool) \<Rightarrow> ('g \<Rightarrow> string) \<Rightarrow> 's list \<Rightarrow> 'g \<Rightarrow> error + 's" where
  "getPresynapticUpdateStrategy isCompatible getName s_PresynapticUpdateStrategies sg =
     (case scanStrategies isCompatible (rev s_PresynapticUpdateStrategies) sg of
        Some s \<Rightarrow> Inr s
      | None \<Rightarrow>
          Inl (RuntimeError
            (''Unable to find a suitable presynaptic update strategy for synapse group '' @
             [CHR 0x27] @ getName sg @ [CHR 0x27])))"

text \<open>The two strategies the registry holds before any registration, with their names.\<close>

datatype builtinStrategy = PreSpan | PostSpan

definition s_PresynapticUpdateStrategies_initial :: "builtinStrategy list" where
  "s_PresynapticUpdateStrategies_initial = [PreSpan, PostSpan]"

lemma scanStrategies_Some:
  "scanStrategies isCompatible ss sg = Some s \<Longrightarrow>
     isCompatible s sg \<and>
     (\<exists>before after. ss = before @ s # after \<and> (\<forall>u \<in> set before. \<not> isCompatible u sg))"
proof (induction ss)
  case Nil
  then show ?case by simp
next
  case (Cons x xs)
  show ?case
  proof (cases "isCompatible x sg")
    case True
    with Cons.prems have "s = x" by simp
    with True show ?thesis by (intro conjI exI [of _ "[]"] exI [of _ xs]) simp_all
  next
    case False
    with Cons.prems have "scanStrategies isCompatible xs sg = Some s" by simp
    from Cons.IH [OF this] obtain before after where
      c: "isCompatible s sg" and e: "xs = before @ s # after"
      and n: "\<forall>u \<in> set before. \<not> isCompatible u sg"
      by blast
    show ?thesis
      using c e n False
      by (intro conjI exI [of _ "x # before"] exI [of _ after]) simp_all
  qed
qed

lemma scanStrategies_None:
  "scanStrategies isCompatible ss sg = None \<longleftrightarrow> (\<forall>u \<in> set ss. \<not> isCompatible u sg)"
  by (induction ss) auto

text \<open>
  C6. \<open>getPresynapticUpdateStrategy\<close> returns the compatible strategy registered last:
  when it returns \<open>s\<close>, \<open>s\<close> is in the registry, \<open>isCompatible s sg\<close> holds and no strategy
  registered after \<open>s\<close> is compatible; when no registered strategy is compatible, and only
  then, it throws the runtime error whose message names the synapse group.
\<close>

theorem getPresynapticUpdateStrategy_latest_compatible:
  "(case getPresynapticUpdateStrategy isCompatible getName registry sg of
      Inr s \<Rightarrow>
        isCompatible s sg \<and>
        (\<exists>earlier later. registry = earlier @ s # later \<and>
                         (\<forall>u \<in> set later. \<not> isCompatible u sg))
    | Inl e \<Rightarrow>
        (\<forall>u \<in> set registry. \<not> isCompatible u sg) \<and>
        e = RuntimeError
              (''Unable to find a suitable presynaptic update strategy for synapse group '' @
               [CHR 0x27] @ getName sg @ [CHR 0x27]))"
proof (cases "scanStrategies isCompatible (rev registry) sg")
  case None
  then have "\<forall>u \<in> set registry. \<not> isCompatible u sg"
    by (simp add: scanStrategies_None)
  with None show ?thesis
    by (simp add: getPresynapticUpdateStrategy_def)
next
  case (Some s)
  from scanStrategies_Some [OF Some] obtain before after where
    c: "isCompatible s sg" and e: "rev registry = before @ s # after"
    and n: "\<forall>u \<in> set before. \<not> isCompatible u sg"
    by blast
  from e have "rev (rev registry) = rev (before @ s # after)"
    by simp
  then have "registry = rev after @ s # rev before"
    by simp
  moreover have "\<forall>u \<in> set (rev before). \<not> isCompatible u sg"
    using n by simp
  ultimately have "\<exists>earlier later. registry = earlier @ s # later \<and>
                     (\<forall>u \<in> set later. \<not> isCompatible u sg)"
    by blast
  with c Some show ?thesis
    by (simp add: getPresynapticUpdateStrategy_def)
qed

text \<open>
  A registry with a user strategy registered after the two built-in ones, and a
  compatibility table to run the selection on.
\<close>

datatype exampleStrategy = Builtin builtinStrategy | User

definition exampleRegistry :: "exampleStrategy list" where
  "exampleRegistry = map Builtin s_PresynapticUpdateStrategies_initial @ [User]"

fun exampleCompatible :: "exampleStrategy \<Rightarrow> nat \<Rightarrow> bool" where
  "exampleCompatible (Builtin PreSpan) sg = (sg = 1)"
| "exampleCompatible (Builtin PostSpan) sg = (sg = 1 \<or> sg = 2)"
| "exampleCompatible User sg = (sg = 2)"

definition exampleName :: "nat \<Rightarrow> string" where
  "exampleName sg = (if sg = 1 then ''syn1'' else if sg = 2 then ''syn2'' else ''syn0'')"

theorem getPresynapticUpdateStrategy_latest_compatible_witness:
  "getPresynapticUpdateStrategy exampleCompatible exampleName exampleRegistry 1 =
     Inr (Builtin PostSpan) \<and>
   exampleCompatible (Builtin PostSpan) 1 \<and>
   getPresynapticUpdateStrategy exampleCompatible exampleName exampleRegistry 2 = Inr User \<and>
   getPresynapticUpdateStrategy exampleCompatible exampleName exampleRegistry 0 =
     Inl (RuntimeError
       (''Unable to find a suitable presynaptic update strategy for synapse group '' @
        [CHR 0x27] @ ''syn0'' @ [CHR 0x27]))"
proof -
  have r1: "getPresynapticUpdateStrategy exampleCompatible exampleName exampleRegistry 1 =
              Inr (Builtin PostSpan)"
    by (simp add: getPresynapticUpdateStrategy_def exampleRegistry_def
        s_PresynapticUpdateStrategies_initial_def)
  have r2: "getPresynapticUpdateStrategy exampleCompatible exampleName exampleRegistry 2 =
              Inr User"
    by (simp add: getPresynapticUpdateStrategy_def exampleRegistry_def
        s_PresynapticUpdateStrategies_initial_def)
  have r0: "\<exists>e. getPresynapticUpdateStrategy exampleCompatible exampleName exampleRegistry 0 =
              Inl e"
    by (simp add: getPresynapticUpdateStrategy_def exampleRegistry_def
        s_PresynapticUpdateStrategies_initial_def)
  then obtain e where
    e: "getPresynapticUpdateStrategy exampleCompatible exampleName exampleRegistry 0 = Inl e"
    by blast
  have c1: "exampleCompatible (Builtin PostSpan) 1"
    using getPresynapticUpdateStrategy_latest_compatible
      [where isCompatible = exampleCompatible and getName = exampleName
         and registry = exampleRegistry and sg = 1]
    by (simp add: r1)
  have "e = RuntimeError
       (''Unable to find a suitable presynaptic update strategy for synapse group '' @
        [CHR 0x27] @ exampleName 0 @ [CHR 0x27])"
    using getPresynapticUpdateStrategy_latest_compatible
      [where isCompatible = exampleCompatible and getName = exampleName
         and registry = exampleRegistry and sg = 0]
    by (simp add: e)
  with e r1 r2 c1 show ?thesis
    by (simp add: exampleName_def)
qed

section \<open>Merging groups\<close>

text \<open>
  A merged group as \<open>createMergedGroups\<close> constructs it: its index, the prefix and the
  role handed through, and the vector of references to its members. The vector of
  \<open>std::reference_wrapper\<close> is the list of the groups referred to; the archetype of a
  merged group is the front of that vector.
\<close>

record ('g, 'r) MergedGroup =
  getIndex :: nat
  getPrefix :: string
  getGroups :: "'g list"
  getRole :: 'r

text \<open>
  The inner \<open>for\<close> loop over \<open>protoMergedGroups\<close>: the proto-merged groups after the
  search and the flag \<open>existingMergedGroupFound\<close>. The \<open>assert\<close> is a branch.
\<close>

fun mergeIntoExisting ::
  "('g \<Rightarrow> 'g \<Rightarrow> bool) \<Rightarrow> 'g \<Rightarrow> 'g list list \<Rightarrow> error + (bool \<times> 'g list list)" where
  "mergeIntoExisting canMerge grp [] = Inr (False, [])"
| "mergeIntoExisting canMerge grp (p # ps) =
     (case p of
        [] \<Rightarrow> Inl AssertionFailed
      | front # others \<Rightarrow>
          if canMerge front grp then Inr (True, (p @ [grp]) # ps)
          else (case mergeIntoExisting canMerge grp ps of
                  Inl e \<Rightarrow> Inl e
                | Inr (existingMergedGroupFound, ps') \<Rightarrow>
                    Inr (existingMergedGroupFound, p # ps')))"

text \<open>The \<open>while\<close> loop: it takes the groups from the back of \<open>unmergedGroups\<close>.\<close>

function createProtoMergedGroups ::
  "('g \<Rightarrow> 'g \<Rightarrow> bool) \<Rightarrow> 'g list \<Rightarrow> 'g list list \<Rightarrow> error + 'g list list" where
  "createProtoMergedGroups canMerge unmergedGroups protoMergedGroups =
     (if unmergedGroups = [] then Inr protoMergedGroups
      else
        (case mergeIntoExisting canMerge (last unmergedGroups) protoMergedGroups of
           Inl e \<Rightarrow> Inl e
         | Inr (existingMergedGroupFound, protoMergedGroups') \<Rightarrow>
             createProtoMergedGroups canMerge (butlast unmergedGroups)
               (if existingMergedGroupFound then protoMergedGroups'
                else protoMergedGroups' @ [[last unmergedGroups]])))"
  by pat_completeness auto
termination
  by (relation "measure (\<lambda>(canMerge, unmergedGroups, protoMergedGroups). length unmergedGroups)")
    auto

declare createProtoMergedGroups.simps [simp del]

text \<open>The final loop, which constructs merged group \<open>i\<close> from proto-merged group \<open>i\<close>.\<close>

fun buildMergedGroups ::
  "('g, 'r) MergedGroup list \<Rightarrow> string \<Rightarrow> 'r \<Rightarrow> nat \<Rightarrow> 'g list list \<Rightarrow> ('g, 'r) MergedGroup list"
  where
  "buildMergedGroups mergedGroups prefix role i [] = mergedGroups"
| "buildMergedGroups mergedGroups prefix role i (p # ps) =
     buildMergedGroups
       (mergedGroups @ [\<lparr>getIndex = i, getPrefix = prefix, getGroups = p, getRole = role\<rparr>])
       prefix role (Suc i) ps"

text \<open>
  \<open>createMergedGroups\<close> on a vector of references. Both vectors are passed by reference:
  the result is the pair of \<open>unmergedGroups\<close>, emptied by the loop, and \<open>mergedGroups\<close>.
\<close>

definition createMergedGroups ::
  "('g \<Rightarrow> 'g \<Rightarrow> bool) \<Rightarrow> 'g list \<Rightarrow> ('g, 'r) MergedGroup list \<Rightarrow> string \<Rightarrow> 'r \<Rightarrow>
     error + ('g list \<times> ('g, 'r) MergedGroup list)" where
  "createMergedGroups canMerge unmergedGroups mergedGroups prefix role =
     (case createProtoMergedGroups canMerge unmergedGroups [] of
        Inl e \<Rightarrow> Inl e
      | Inr protoMergedGroups \<Rightarrow>
          Inr ([], buildMergedGroups mergedGroups prefix role 0 protoMergedGroups))"

text \<open>
  The overload on the model's map from names to groups, read in key order: the groups
  that pass the filter are collected, then merged.
\<close>

fun collectUnmerged :: "('g \<Rightarrow> bool) \<Rightarrow> (string \<times> 'g) list \<Rightarrow> 'g list" where
  "collectUnmerged filterFn [] = []"
| "collectUnmerged filterFn ((name, g) # groups) =
     (if filterFn g then g # collectUnmerged filterFn groups
      else collectUnmerged filterFn groups)"

definition createMergedGroupsFiltered ::
  "('g \<Rightarrow> bool) \<Rightarrow> ('g \<Rightarrow> 'g \<Rightarrow> bool) \<Rightarrow> (string \<times> 'g) list \<Rightarrow> ('g, 'r) MergedGroup list \<Rightarrow>
     string \<Rightarrow> 'r \<Rightarrow> error + ('g list \<times> ('g, 'r) MergedGroup list)" where
  "createMergedGroupsFiltered filterFn canMerge groups mergedGroups prefix role =
     createMergedGroups canMerge (collectUnmerged filterFn groups) mergedGroups prefix role"

subsection \<open>First fit, as the specification words it\<close>

text \<open>
  A proto-merged group accepts a group when its archetype, the first member, can be
  merged with it. Placing a group appends it to the first proto-merged group that
  accepts it, or starts a new proto-merged group after the existing ones.
\<close>

definition accepts :: "('g \<Rightarrow> 'g \<Rightarrow> bool) \<Rightarrow> 'g \<Rightarrow> 'g list \<Rightarrow> bool" where
  "accepts canMerge g p = (case p of [] \<Rightarrow> False | archetype # others \<Rightarrow> canMerge archetype g)"

definition firstFitPlace :: "('g \<Rightarrow> 'g \<Rightarrow> bool) \<Rightarrow> 'g list list \<Rightarrow> 'g \<Rightarrow> 'g list list" where
  "firstFitPlace canMerge protos g =
     (case List.extract (accepts canMerge g) protos of
        None \<Rightarrow> protos @ [[g]]
      | Some (before, p, after) \<Rightarrow> before @ (p @ [g]) # after)"

definition firstFit :: "('g \<Rightarrow> 'g \<Rightarrow> bool) \<Rightarrow> 'g list \<Rightarrow> 'g list list" where
  "firstFit canMerge gs = foldl (firstFitPlace canMerge) [] gs"

subsection \<open>The loops compute first fit\<close>

lemma mergeIntoExisting_place:
  assumes "[] \<notin> set protos"
  shows "\<exists>found protos'.
           mergeIntoExisting canMerge g protos = Inr (found, protos') \<and>
           (if found then protos' else protos' @ [[g]]) = firstFitPlace canMerge protos g"
  using assms
proof (induction protos)
  case Nil
  show ?case
    by (intro exI [of _ False] exI [of _ "[]"]) (simp add: firstFitPlace_def extract_Nil_code)
next
  case (Cons p ps)
  from Cons.prems obtain front others where p: "p = front # others"
    by (cases p) auto
  show ?case
  proof (cases "canMerge front g")
    case True
    then show ?thesis
      by (intro exI [of _ True] exI [of _ "(p @ [g]) # ps"])
        (simp add: p firstFitPlace_def accepts_def extract_Cons_code)
  next
    case False
    from Cons.prems have "[] \<notin> set ps" by simp
    from Cons.IH [OF this] obtain found ps' where
      run: "mergeIntoExisting canMerge g ps = Inr (found, ps')"
      and place: "(if found then ps' else ps' @ [[g]]) = firstFitPlace canMerge ps g"
      by blast
    have "firstFitPlace canMerge (p # ps) g = p # firstFitPlace canMerge ps g"
      using False
      by (simp add: p firstFitPlace_def accepts_def extract_Cons_code split: option.splits)
    with run place False show ?thesis
      by (intro exI [of _ found] exI [of _ "p # ps'"]) (auto simp: p split: if_splits)
  qed
qed

lemma firstFitPlace_nonempty:
  "[] \<notin> set protos \<Longrightarrow> [] \<notin> set (firstFitPlace canMerge protos g)"
  by (auto simp: firstFitPlace_def split: option.splits dest!: extract_SomeE)

lemma foldl_firstFitPlace_nonempty:
  "[] \<notin> set protos \<Longrightarrow> [] \<notin> set (foldl (firstFitPlace canMerge) protos gs)"
  by (induction gs arbitrary: protos) (simp_all add: firstFitPlace_nonempty)

lemma createProtoMergedGroups_foldl:
  "[] \<notin> set protos \<Longrightarrow>
   createProtoMergedGroups canMerge unmerged protos =
     Inr (foldl (firstFitPlace canMerge) protos (rev unmerged))"
proof (induction unmerged arbitrary: protos rule: rev_induct)
  case Nil
  show ?case by (simp add: createProtoMergedGroups.simps)
next
  case (snoc g gs)
  from mergeIntoExisting_place [OF snoc.prems, of canMerge g] obtain found protos' where
    run: "mergeIntoExisting canMerge g protos = Inr (found, protos')"
    and place: "(if found then protos' else protos' @ [[g]]) = firstFitPlace canMerge protos g"
    by blast
  have ne: "[] \<notin> set (firstFitPlace canMerge protos g)"
    using snoc.prems by (rule firstFitPlace_nonempty)
  have "createProtoMergedGroups canMerge (gs @ [g]) protos =
          createProtoMergedGroups canMerge gs (firstFitPlace canMerge protos g)"
    using run place by (subst createProtoMergedGroups.simps) (cases found; simp)
  also have "\<dots> = Inr (foldl (firstFitPlace canMerge) (firstFitPlace canMerge protos g) (rev gs))"
    by (rule snoc.IH [OF ne])
  finally show ?case by simp
qed

lemma createProtoMergedGroups_firstFit:
  "createProtoMergedGroups canMerge unmerged [] = Inr (firstFit canMerge (rev unmerged))"
  by (simp add: createProtoMergedGroups_foldl firstFit_def)

lemma buildMergedGroups_map:
  "buildMergedGroups mergedGroups prefix role i protos =
     mergedGroups @
     map (\<lambda>k. \<lparr>getIndex = i + k, getPrefix = prefix, getGroups = protos ! k, getRole = role\<rparr>)
       [0..<length protos]"
proof (induction protos arbitrary: mergedGroups i)
  case Nil
  show ?case by simp
next
  case (Cons p ps)
  have "[0..<length (p # ps)] = 0 # map Suc [0..<length ps]"
    by (simp add: upt_conv_Cons map_Suc_upt del: upt_Suc)
  then show ?case
    by (simp add: Cons.IH comp_def del: upt_Suc)
qed

subsection \<open>What first fit guarantees\<close>

lemma firstFitPlace_mset:
  "mset (concat (firstFitPlace canMerge protos g)) = mset (concat protos) + {#g#}"
  by (auto simp: firstFitPlace_def split: option.splits dest!: extract_SomeE)

lemma foldl_firstFitPlace_mset:
  "mset (concat (foldl (firstFitPlace canMerge) protos gs)) = mset (concat protos) + mset gs"
  by (induction gs arbitrary: protos) (simp_all add: firstFitPlace_mset)

lemma firstFit_mset: "mset (concat (firstFit canMerge gs)) = mset gs"
  by (simp add: firstFit_def foldl_firstFitPlace_mset)

lemma distinct_concat_same_index:
  "distinct (concat xss) \<Longrightarrow> i < length xss \<Longrightarrow> j < length xss \<Longrightarrow>
   g \<in> set (xss ! i) \<Longrightarrow> g \<in> set (xss ! j) \<Longrightarrow> i = j"
proof (induction xss arbitrary: i j)
  case Nil
  then show ?case by simp
next
  case (Cons xs xss)
  show ?case
  proof (cases i)
    case 0
    show ?thesis
    proof (cases j)
      case 0
      with \<open>i = 0\<close> show ?thesis by simp
    next
      case (Suc j')
      with Cons.prems \<open>i = 0\<close> have "g \<in> set xs" and "g \<in> set (concat xss)"
        by auto
      with Cons.prems(1) show ?thesis by auto
    qed
  next
    case (Suc i')
    show ?thesis
    proof (cases j)
      case 0
      with Cons.prems \<open>i = Suc i'\<close> have "g \<in> set xs" and "g \<in> set (concat xss)"
        by auto
      with Cons.prems(1) show ?thesis by auto
    next
      case (Suc j')
      with Cons.prems \<open>i = Suc i'\<close> have "i' = j'"
        by (intro Cons.IH) auto
      with Suc \<open>i = Suc i'\<close> show ?thesis by simp
    qed
  qed
qed

text \<open>
  Every member after the archetype was accepted by the archetype: the invariant of the
  placement, independent of any property of \<open>canMerge\<close>.
\<close>

definition archetypeAccepted :: "('g \<Rightarrow> 'g \<Rightarrow> bool) \<Rightarrow> 'g list \<Rightarrow> bool" where
  "archetypeAccepted canMerge p =
     (case p of [] \<Rightarrow> False | archetype # others \<Rightarrow> list_all (canMerge archetype) others)"

lemma archetypeAccepted_snoc:
  "archetypeAccepted canMerge p \<Longrightarrow> accepts canMerge g p \<Longrightarrow> archetypeAccepted canMerge (p @ [g])"
  by (cases p) (simp_all add: archetypeAccepted_def accepts_def)

lemma firstFitPlace_archetypeAccepted:
  assumes "list_all (archetypeAccepted canMerge) protos"
  shows "list_all (archetypeAccepted canMerge) (firstFitPlace canMerge protos g)"
proof (cases "List.extract (accepts canMerge g) protos")
  case None
  with assms show ?thesis
    by (simp add: firstFitPlace_def archetypeAccepted_def)
next
  case (Some r)
  obtain before p after where r: "r = (before, p, after)"
    by (cases r) auto
  from Some r have e: "protos = before @ p # after" and a: "accepts canMerge g p"
    by (auto dest: extract_SomeE)
  from assms e have "archetypeAccepted canMerge p"
    by simp
  with a have "archetypeAccepted canMerge (p @ [g])"
    by (intro archetypeAccepted_snoc)
  with assms e Some r show ?thesis
    by (simp add: firstFitPlace_def)
qed

lemma firstFit_archetypeAccepted:
  "list_all (archetypeAccepted canMerge) (firstFit canMerge gs)"
proof -
  have "list_all (archetypeAccepted canMerge) protos \<Longrightarrow>
        list_all (archetypeAccepted canMerge) (foldl (firstFitPlace canMerge) protos gs)"
    for protos
    by (induction gs arbitrary: protos) (simp_all add: firstFitPlace_archetypeAccepted)
  from this [of "[]"] show ?thesis
    by (simp add: firstFit_def)
qed

lemma createMergedGroups_run:
  "createMergedGroups canMerge unmergedGroups mergedGroups prefix role =
     Inr ([], mergedGroups @
              map (\<lambda>i. \<lparr>getIndex = i, getPrefix = prefix,
                         getGroups = firstFit canMerge (rev unmergedGroups) ! i, getRole = role\<rparr>)
                [0..<length (firstFit canMerge (rev unmergedGroups))])"
  by (simp add: createMergedGroups_def createProtoMergedGroups_firstFit buildMergedGroups_map)

lemma firstFit_nonempty: "[] \<notin> set (firstFit canMerge gs)"
  by (simp add: firstFit_def foldl_firstFitPlace_nonempty)

lemma collectUnmerged_filter:
  "collectUnmerged filterFn groups = map snd (filter (\<lambda>(name, g). filterFn g) groups)"
  by (induction groups) auto

text \<open>Two groups can be merged in the examples when they have the same parity.\<close>

definition sameParity :: "nat \<Rightarrow> nat \<Rightarrow> bool" where
  "sameParity a b = (a mod 2 = b mod 2)"

text \<open>
  C3. \<open>createMergedGroups\<close> never fails and computes first fit over the groups taken
  from the back of the vector: the proto-merged groups are those of \<open>firstFit\<close>, merged
  group \<open>i\<close> holds proto-merged group \<open>i\<close> and has index \<open>i\<close>, no merged group is empty,
  the members of the merged groups together are the input groups, each as often as it
  was given, and a group of a duplicate-free input is in exactly one merged group. The
  overload with a filter merges the groups of the map that pass the filter.
\<close>

theorem createMergedGroups_first_fit:
  "\<exists>protos.
     protos = firstFit canMerge (rev unmergedGroups) \<and>
     createMergedGroups canMerge unmergedGroups mergedGroups prefix role =
       Inr ([], mergedGroups @
                map (\<lambda>i. \<lparr>getIndex = i, getPrefix = prefix, getGroups = protos ! i,
                           getRole = role\<rparr>) [0..<length protos]) \<and>
     [] \<notin> set protos \<and>
     mset (concat protos) = mset unmergedGroups \<and>
     (distinct unmergedGroups \<longrightarrow>
        (\<forall>g \<in> set unmergedGroups. \<exists>!i. i < length protos \<and> g \<in> set (protos ! i))) \<and>
     createMergedGroupsFiltered filterFn canMerge groups mergedGroups prefix role =
       createMergedGroups canMerge (map snd (filter (\<lambda>(name, g). filterFn g) groups))
         mergedGroups prefix role"
proof -
  define protos where "protos = firstFit canMerge (rev unmergedGroups)"
  have m: "mset (concat protos) = mset unmergedGroups"
    by (simp add: protos_def firstFit_mset)
  have part: "\<exists>!i. i < length protos \<and> g \<in> set (protos ! i)"
    if d: "distinct unmergedGroups" and g: "g \<in> set unmergedGroups" for g
  proof -
    from m d have dc: "distinct (concat protos)"
      using mset_eq_imp_distinct_iff [of "concat protos" unmergedGroups] by simp
    from m g have "g \<in> set (concat protos)"
      using mset_eq_setD [of "concat protos" unmergedGroups] by simp
    then obtain xs where "xs \<in> set protos" and "g \<in> set xs"
      by auto
    then obtain i where i: "i < length protos" "g \<in> set (protos ! i)"
      by (auto simp: in_set_conv_nth)
    show ?thesis
    proof (rule ex1I [of _ i])
      show "i < length protos \<and> g \<in> set (protos ! i)"
        using i by simp
    next
      fix j
      assume "j < length protos \<and> g \<in> set (protos ! j)"
      then show "j = i"
        using distinct_concat_same_index [OF dc _ _ _ i(2), of j] i(1) by simp
    qed
  qed
  show ?thesis
    using m part
    by (intro exI [of _ protos])
      (simp add: protos_def createMergedGroups_run firstFit_nonempty
        createMergedGroupsFiltered_def collectUnmerged_filter)
qed

theorem createMergedGroups_first_fit_witness:
  "createMergedGroups sameParity [1, 2, 3, 4] [] ''NeuronUpdate'' () =
     Inr ([], [\<lparr>getIndex = 0, getPrefix = ''NeuronUpdate'', getGroups = [4, 2], getRole = ()\<rparr>,
               \<lparr>getIndex = 1, getPrefix = ''NeuronUpdate'', getGroups = [3, 1], getRole = ()\<rparr>])"
proof -
  have ff: "firstFit sameParity (rev [1, 2, 3, 4]) = [[4, 2], [3, 1]]"
    by (simp add: firstFit_def firstFitPlace_def accepts_def sameParity_def
        extract_Nil_code extract_Cons_code)
  from createMergedGroups_first_fit
    [of sameParity "[1, 2, 3, 4]" "[]" "''NeuronUpdate''" "()"]
  obtain protos where p: "protos = firstFit sameParity (rev [1, 2, 3, 4])"
    and run: "createMergedGroups sameParity [1, 2, 3, 4] [] ''NeuronUpdate'' () =
       Inr ([], [] @
                map (\<lambda>i. \<lparr>getIndex = i, getPrefix = ''NeuronUpdate'', getGroups = protos ! i,
                           getRole = ()\<rparr>) [0..<length protos])"
    by blast
  from p ff have "protos = [[4, 2], [3, 1]]"
    by simp
  with run show ?thesis
    by (simp add: upt_conv_Cons)
qed

subsection \<open>Soundness of a merged group\<close>

text \<open>
  The construction tests a candidate against the archetype of a proto-merged group only:
  in every merged group that \<open>createMergedGroups\<close> produces, the archetype can be merged
  with every member after it, and every member is one of the input groups.
\<close>

lemma createMergedGroups_archetype_accepts:
  assumes run: "createMergedGroups canMerge unmergedGroups mergedGroups prefix role =
                  Inr (rest, mergedGroups')"
    and G: "G \<in> set (drop (length mergedGroups) mergedGroups')"
  shows "\<exists>archetype others.
           getGroups G = archetype # others \<and>
           (\<forall>b \<in> set others. canMerge archetype b) \<and>
           set (getGroups G) \<subseteq> set unmergedGroups"
proof -
  define protos where "protos = firstFit canMerge (rev unmergedGroups)"
  from run have "mergedGroups' =
      mergedGroups @
      map (\<lambda>i. \<lparr>getIndex = i, getPrefix = prefix, getGroups = protos ! i, getRole = role\<rparr>)
        [0..<length protos]"
    by (simp add: createMergedGroups_run protos_def)
  then have "drop (length mergedGroups) mergedGroups' =
      map (\<lambda>i. \<lparr>getIndex = i, getPrefix = prefix, getGroups = protos ! i, getRole = role\<rparr>)
        [0..<length protos]"
    by simp
  with G have "G \<in> (\<lambda>i. \<lparr>getIndex = i, getPrefix = prefix, getGroups = protos ! i,
                         getRole = role\<rparr>) ` {0..<length protos}"
    by simp
  then obtain k where k: "k < length protos" and Gk: "getGroups G = protos ! k"
    by auto
  from k have mem: "protos ! k \<in> set protos"
    by simp
  have "list_all (archetypeAccepted canMerge) protos"
    unfolding protos_def by (rule firstFit_archetypeAccepted)
  with mem have "archetypeAccepted canMerge (protos ! k)"
    by (simp add: list_all_iff)
  then obtain archetype others where
    shape: "protos ! k = archetype # others" and acc: "\<forall>b \<in> set others. canMerge archetype b"
    by (auto simp: archetypeAccepted_def list_all_iff split: list.splits)
  have sub: "set (protos ! k) \<subseteq> set unmergedGroups"
  proof -
    have "set (concat protos) = set unmergedGroups"
      using mset_eq_setD [OF firstFit_mset [of canMerge "rev unmergedGroups"]]
      by (simp add: protos_def)
    with mem show ?thesis by auto
  qed
  have members: "getGroups G = archetype # others"
    using Gk shape by simp
  have inputs: "set (getGroups G) \<subseteq> set unmergedGroups"
    using sub Gk by simp
  show ?thesis
    by (rule exI [of _ archetype], rule exI [of _ others], intro conjI)
      (fact members, fact acc, fact inputs)
qed

text \<open>
  C4. The specification has \<open>canMerge\<close> check structural equivalence of two groups. When
  \<open>canMerge\<close> is an equivalence on the input groups (reflexive, symmetric and transitive),
  then for every merged group \<open>G\<close> that \<open>createMergedGroups\<close> produces and for every pair
  \<open>(a, b)\<close> of members of \<open>G\<close>, \<open>canMerge a b\<close> holds, although the construction tests a
  candidate against the archetype only.
\<close>

theorem createMergedGroups_merge_sound:
  assumes run: "createMergedGroups canMerge unmergedGroups mergedGroups prefix role =
                  Inr (rest, mergedGroups')"
    and G: "G \<in> set (drop (length mergedGroups) mergedGroups')"
    and refl: "\<forall>x \<in> set unmergedGroups. canMerge x x"
    and sym: "\<forall>x \<in> set unmergedGroups. \<forall>y \<in> set unmergedGroups. canMerge x y \<longrightarrow> canMerge y x"
    and trans: "\<forall>x \<in> set unmergedGroups. \<forall>y \<in> set unmergedGroups. \<forall>z \<in> set unmergedGroups.
                  canMerge x y \<longrightarrow> canMerge y z \<longrightarrow> canMerge x z"
  shows "\<forall>a \<in> set (getGroups G). \<forall>b \<in> set (getGroups G). canMerge a b"
proof (intro ballI)
  fix a b
  assume a: "a \<in> set (getGroups G)" and b: "b \<in> set (getGroups G)"
  from createMergedGroups_archetype_accepts [OF run G] obtain archetype others where
    members: "getGroups G = archetype # others"
    and acc: "\<forall>b \<in> set others. canMerge archetype b"
    and sub: "set (getGroups G) \<subseteq> set unmergedGroups"
    by blast
  have arch_in: "archetype \<in> set unmergedGroups"
    using sub members by auto
  have a_in: "a \<in> set unmergedGroups" and b_in: "b \<in> set unmergedGroups"
    using a b sub by auto
  have fromArch: "canMerge archetype c" if "c \<in> set (getGroups G)" for c
  proof (cases "c = archetype")
    case True
    with refl arch_in show ?thesis by blast
  next
    case False
    with that have "c \<in> set others" by (simp add: members)
    with acc show ?thesis by blast
  qed
  have "canMerge a archetype"
    using fromArch [OF a] sym arch_in a_in by blast
  moreover have "canMerge archetype b"
    by (rule fromArch [OF b])
  ultimately show "canMerge a b"
    using trans arch_in a_in b_in by blast
qed

theorem createMergedGroups_merge_sound_witness:
  "createMergedGroups sameParity [1, 2, 3, 4] [] ''NeuronUpdate'' () =
     Inr ([], [\<lparr>getIndex = 0, getPrefix = ''NeuronUpdate'', getGroups = [4, 2], getRole = ()\<rparr>,
               \<lparr>getIndex = 1, getPrefix = ''NeuronUpdate'', getGroups = [3, 1], getRole = ()\<rparr>]) \<and>
   sameParity 4 2 \<and> sameParity 2 4 \<and> sameParity 2 2 \<and> sameParity 4 4"
proof -
  let ?G = "\<lparr>getIndex = 0, getPrefix = ''NeuronUpdate'', getGroups = [4, 2::nat], getRole = ()\<rparr>"
  let ?H = "\<lparr>getIndex = 1, getPrefix = ''NeuronUpdate'', getGroups = [3, 1::nat], getRole = ()\<rparr>"
  have ff: "firstFit sameParity (rev [1, 2, 3, 4]) = [[4, 2], [3, 1]]"
    by (simp add: firstFit_def firstFitPlace_def accepts_def sameParity_def
        extract_Nil_code extract_Cons_code)
  have run: "createMergedGroups sameParity [1, 2, 3, 4] [] ''NeuronUpdate'' () =
               Inr ([], [?G, ?H])"
    unfolding createMergedGroups_run ff by (simp add: upt_conv_Cons)
  have mem: "?G \<in> set (drop (length []) [?G, ?H])"
    by simp
  have refl: "\<forall>x \<in> set [1, 2, 3, 4]. sameParity x x"
    by (simp add: sameParity_def)
  have sym: "\<forall>x \<in> set [1, 2, 3, 4]. \<forall>y \<in> set [1, 2, 3, 4]. sameParity x y \<longrightarrow> sameParity y x"
    by (simp add: sameParity_def)
  have trans: "\<forall>x \<in> set [1, 2, 3, 4]. \<forall>y \<in> set [1, 2, 3, 4]. \<forall>z \<in> set [1, 2, 3, 4].
           sameParity x y \<longrightarrow> sameParity y z \<longrightarrow> sameParity x z"
    by (simp add: sameParity_def)
  from createMergedGroups_merge_sound [OF run mem refl sym trans]
  have "\<forall>a \<in> set (getGroups ?G). \<forall>b \<in> set (getGroups ?G). sameParity a b" .
  then have "sameParity 4 2 \<and> sameParity 2 4 \<and> sameParity 2 2 \<and> sameParity 4 4"
    by simp
  with run show ?thesis
    by simp
qed

section \<open>Substitution frames\<close>

text \<open>
  Modelled from the spec: the class \<open>Substitutions\<close> is declared in a header that is not
  among the sources. The spec describes a frame as a pair of mappings (variables: name to
  replacement; functions: name to arity and template) with a pointer to a parent frame
  that the frame never mutates; \<open>addVarSubstitution(name, repl, allowOverride = false)\<close>
  fails if the name exists in this frame and override is not requested; \<open>get(name)\<close>,
  which \<open>operator[]\<close> calls, walks the parent chain and fails if the name is undefined.
  A parent is never mutated while a child refers to it, so the frame holds its parent by
  value.
\<close>

datatype Substitutions =
  Frame (varSubstitutions: "(string \<times> string) list")
        (funcSubstitutions: "(string \<times> nat \<times> string) list")
        (parent: "Substitutions option")

text \<open>
  Modelled from the spec: the constructor \<open>Substitutions(&parent)\<close> of the missing class,
  an empty frame under \<open>parent\<close>.
\<close>

definition childOf :: "Substitutions \<Rightarrow> Substitutions" where
  "childOf p = Frame [] [] (Some p)"

text \<open>
  Modelled from the spec: \<open>addVarSubstitution\<close> of the missing class. It fails if the name
  exists in this frame and override is not requested; otherwise the frame maps the name
  to the replacement.
\<close>

fun addVarSubstitution :: "string \<Rightarrow> string \<Rightarrow> bool \<Rightarrow> Substitutions \<Rightarrow> error + Substitutions"
  where
  "addVarSubstitution name repl allowOverride (Frame vs fs p) =
     (if map_of vs name \<noteq> None \<and> \<not> allowOverride then Inl (SubstitutionError name)
      else Inr (Frame (AList.update name repl vs) fs p))"

text \<open>
  Modelled from the spec: \<open>get\<close> of the missing class, also called by \<open>operator[]\<close>. It
  walks the parent chain and fails if the name is undefined.
\<close>

fun getVarSubstitution :: "string \<Rightarrow> Substitutions \<Rightarrow> error + string" where
  "getVarSubstitution name (Frame vs fs None) =
     (case map_of vs name of Some repl \<Rightarrow> Inr repl | None \<Rightarrow> Inl (SubstitutionError name))"
| "getVarSubstitution name (Frame vs fs (Some p)) =
     (case map_of vs name of Some repl \<Rightarrow> Inr repl | None \<Rightarrow> getVarSubstitution name p)"

section \<open>Dispatching thread ranges to groups\<close>

text \<open>
  \<open>CUDA::CodeGenerator::genParallelGroup\<close>. The map \<open>groups\<close> is the list of its entries
  in key order, which is the order of the loop. The frame type with its two operations
  (the constructor of a child frame and \<open>addVarSubstitution\<close>) is a parameter of the
  model, and so is the handler: a handler can only append to the stream, so it is the
  function from the group and the frame to the text it writes and the frame it leaves,
  or to the exception it throws. The state of the loop is the stream, \<open>idStart\<close> and the
  frame \<open>popSubs\<close>, which is constructed once, before the loop.

  \<open>idStart\<close> and the padded sizes are \<open>size_t\<close> values, unsigned integers of 64 bits:
  \<open>size_t n\<close> is the value that a \<open>size_t\<close> holds for the number \<open>n\<close>, so that
  \<open>idStart + paddedSize\<close> and \<open>idStart += paddedSize\<close> wrap around at \<open>2^64\<close>.
\<close>

definition size_t :: "nat \<Rightarrow> nat" where
  "size_t n = n mod 2 ^ 64"

fun genParallelGroup_loop ::
  "(string \<Rightarrow> string \<Rightarrow> bool \<Rightarrow> 's \<Rightarrow> error + 's) \<Rightarrow> ('g \<Rightarrow> nat) \<Rightarrow> ('g \<Rightarrow> bool) \<Rightarrow>
   ('g \<Rightarrow> 's \<Rightarrow> error + (CodeStream \<times> 's)) \<Rightarrow> (string \<times> 'g) list \<Rightarrow>
   CodeStream \<times> nat \<times> 's \<Rightarrow> error + (CodeStream \<times> nat \<times> 's)" where
  "genParallelGroup_loop addVar getPaddedSizeFunc filterFn handler [] st = Inr st"
| "genParallelGroup_loop addVar getPaddedSizeFunc filterFn handler ((name, g) # groups)
     (os, idStart, popSubs) =
     (if filterFn g then
        (let paddedSize = size_t (getPaddedSizeFunc g);
             os1 = os @ [Str ''// Group '', Str name, Endl]
         in if idStart = 0 then
              (let os2 = os1 @ [Str ''if(id < '', Num paddedSize, Str '')'', OB 1]
               in case addVar ''id'' ''id'' False popSubs of
                    Inl e \<Rightarrow> Inl e
                  | Inr popSubs1 \<Rightarrow>
                      (case handler g popSubs1 of
                         Inl e \<Rightarrow> Inl e
                       | Inr (body, popSubs2) \<Rightarrow>
                           genParallelGroup_loop addVar getPaddedSizeFunc filterFn handler groups
                             (os2 @ body @ [CB 1, Endl], size_t (idStart + paddedSize), popSubs2)))
            else
              (let os2 = os1 @ [Str ''if(id >= '', Num idStart, Str '' && id < '',
                                Num (size_t (idStart + paddedSize)), Str '')'', OB 1,
                                Str ''const unsigned int lid = id - '', Num idStart, Str '';'',
                                Endl]
               in case addVar ''id'' ''lid'' False popSubs of
                    Inl e \<Rightarrow> Inl e
                  | Inr popSubs1 \<Rightarrow>
                      (case handler g popSubs1 of
                         Inl e \<Rightarrow> Inl e
                       | Inr (body, popSubs2) \<Rightarrow>
                           genParallelGroup_loop addVar getPaddedSizeFunc filterFn handler groups
                             (os2 @ body @ [CB 1, Endl], size_t (idStart + paddedSize), popSubs2))))
      else genParallelGroup_loop addVar getPaddedSizeFunc filterFn handler groups
             (os, idStart, popSubs))"

text \<open>The result is the stream and \<open>idStart\<close>, both passed by reference.\<close>

definition genParallelGroup ::
  "('s \<Rightarrow> 's) \<Rightarrow> (string \<Rightarrow> string \<Rightarrow> bool \<Rightarrow> 's \<Rightarrow> error + 's) \<Rightarrow> CodeStream \<Rightarrow> 's \<Rightarrow>
   (string \<times> 'g) list \<Rightarrow> nat \<Rightarrow> ('g \<Rightarrow> nat) \<Rightarrow> ('g \<Rightarrow> bool) \<Rightarrow>
   ('g \<Rightarrow> 's \<Rightarrow> error + (CodeStream \<times> 's)) \<Rightarrow> error + (CodeStream \<times> nat)" where
  "genParallelGroup newChild addVar os kernelSubs groups idStart getPaddedSizeFunc filterFn handler =
     (case genParallelGroup_loop addVar getPaddedSizeFunc filterFn handler groups
             (os, idStart, newChild kernelSubs) of
        Inl e \<Rightarrow> Inl e
      | Inr (os', idStart', popSubs') \<Rightarrow> Inr (os', idStart'))"

text \<open>The overload without a filter passes the filter that accepts every group.\<close>

definition genParallelGroupAll ::
  "('s \<Rightarrow> 's) \<Rightarrow> (string \<Rightarrow> string \<Rightarrow> bool \<Rightarrow> 's \<Rightarrow> error + 's) \<Rightarrow> CodeStream \<Rightarrow> 's \<Rightarrow>
   (string \<times> 'g) list \<Rightarrow> nat \<Rightarrow> ('g \<Rightarrow> nat) \<Rightarrow>
   ('g \<Rightarrow> 's \<Rightarrow> error + (CodeStream \<times> 's)) \<Rightarrow> error + (CodeStream \<times> nat)" where
  "genParallelGroupAll newChild addVar os kernelSubs groups idStart getPaddedSizeFunc handler =
     genParallelGroup newChild addVar os kernelSubs groups idStart getPaddedSizeFunc
       (\<lambda>g. True) handler"

subsection \<open>Kernel dimensions\<close>

text \<open>
  The kernels of the OpenCL backend, in the order of the array \<open>KernelNames\<close>; the array
  \<open>m_KernelWorkGroupSizes\<close> is the function from a kernel to its work-group size.
\<close>

datatype Kernel =
    KernelNeuronUpdate
  | KernelPresynapticUpdate
  | KernelPostsynapticUpdate
  | KernelSynapseDynamicsUpdate
  | KernelInitialize
  | KernelInitializeSparse
  | KernelPreNeuronReset
  | KernelPreSynapseReset

fun KernelNames :: "Kernel \<Rightarrow> string" where
  "KernelNames KernelNeuronUpdate = ''updateNeuronsKernel''"
| "KernelNames KernelPresynapticUpdate = ''updatePresynapticKernel''"
| "KernelNames KernelPostsynapticUpdate = ''updatePostsynapticKernel''"
| "KernelNames KernelSynapseDynamicsUpdate = ''updateSynapseDynamicsKernel''"
| "KernelNames KernelInitialize = ''initializeKernel''"
| "KernelNames KernelInitializeSparse = ''initializeSparseKernel''"
| "KernelNames KernelPreNeuronReset = ''preNeuronResetKernel''"
| "KernelNames KernelPreSynapseReset = ''preSynapseResetKernel''"

definition genKernelDimensions ::
  "(Kernel \<Rightarrow> nat) \<Rightarrow> CodeStream \<Rightarrow> Kernel \<Rightarrow> nat \<Rightarrow> error + CodeStream" where
  "genKernelDimensions m_KernelWorkGroupSizes os kern numThreads =
     (case ceilDivide numThreads (m_KernelWorkGroupSizes kern) of
        Inl e \<Rightarrow> Inl e
      | Inr numOfWorkGroups \<Rightarrow>
          Inr (os @ [Str ''const cl::NDRange globalWorkSize('',
                     Num (m_KernelWorkGroupSizes kern * numOfWorkGroups), Str '', 1);'', Endl,
                     Str ''const cl::NDRange localWorkSize('',
                     Num (m_KernelWorkGroupSizes kern), Str '', 1);'', Endl]))"

subsection \<open>The ranges, as the specification words them\<close>

text \<open>
  The start of each range in turn: the first range starts at \<open>START\<close>, and each range
  advances \<open>START\<close> by its padded size. The guard opens the block of a group.
\<close>

fun groupStarts :: "nat \<Rightarrow> nat list \<Rightarrow> nat list" where
  "groupStarts start [] = []"
| "groupStarts start (pad # pads) = start # groupStarts (start + pad) pads"

definition groupOpen :: "string \<Rightarrow> nat \<Rightarrow> nat \<Rightarrow> CodeStream" where
  "groupOpen name start pad =
     [Str ''// Group '', Str name, Endl] @
     (if start = 0 then [Str ''if(id < '', Num pad, Str '')'', OB 1]
      else [Str ''if(id >= '', Num start, Str '' && id < '', Num (start + pad), Str '')'', OB 1,
            Str ''const unsigned int lid = id - '', Num start, Str '';'', Endl])"

definition groupBlock :: "string \<times> nat \<times> nat \<times> CodeStream \<Rightarrow> CodeStream" where
  "groupBlock b = (case b of (name, start, pad, body) \<Rightarrow>
     groupOpen name start pad @ body @ [CB 1, Endl])"

lemma length_groupStarts [simp]: "length (groupStarts start pads) = length pads"
  by (induction pads arbitrary: start) simp_all

lemma groupStarts_nth:
  "k < length pads \<Longrightarrow> groupStarts start pads ! k = start + sum_list (take k pads)"
proof (induction pads arbitrary: start k)
  case Nil
  then show ?case by simp
next
  case (Cons p ps)
  show ?case
  proof (cases k)
    case 0
    then show ?thesis by simp
  next
    case (Suc k')
    with Cons.prems have "k' < length ps" by simp
    from Cons.IH [OF this, of "start + p"] Suc show ?thesis
      by (simp add: add.assoc)
  qed
qed

lemma groupStarts_end:
  "k < length pads \<Longrightarrow>
   groupStarts start pads ! k + pads ! k = start + sum_list (take (Suc k) pads)"
  by (simp add: groupStarts_nth take_Suc_conv_app_nth)

lemma sum_list_take_mono:
  fixes pads :: "nat list"
  shows "j \<le> k \<Longrightarrow> sum_list (take j pads) \<le> sum_list (take k pads)"
proof -
  assume "j \<le> k"
  then have "take k pads = take j pads @ take (k - j) (drop j pads)"
    by (metis le_add_diff_inverse take_add)
  then show ?thesis by simp
qed

lemma groupStarts_ordered:
  assumes "j < k" and "k < length pads"
  shows "groupStarts start pads ! j + pads ! j \<le> groupStarts start pads ! k"
proof -
  from assms have j: "j < length pads" by simp
  have "sum_list (take (Suc j) pads) \<le> sum_list (take k pads)"
    using assms(1) by (intro sum_list_take_mono) simp
  then show ?thesis
    using groupStarts_end [OF j, of start] groupStarts_nth [OF assms(2), of start] by simp
qed

lemma size_t_id: "n < 2 ^ 64 \<Longrightarrow> size_t n = n"
  by (simp add: size_t_def)

lemma genParallelGroup_loop_blocks:
  assumes "genParallelGroup_loop addVar getPaddedSizeFunc filterFn handler groups
             (os, idStart, popSubs) = Inr (os', idStart', popSubs')"
    and "idStart + sum_list (map (\<lambda>(name, g). getPaddedSizeFunc g)
                              (filter (\<lambda>(name, g). filterFn g) groups)) < 2 ^ 64"
  shows "idStart' = idStart +
           sum_list (map (\<lambda>(name, g). getPaddedSizeFunc g)
                       (filter (\<lambda>(name, g). filterFn g) groups)) \<and>
         (\<exists>bodies.
            length bodies = length (filter (\<lambda>(name, g). filterFn g) groups) \<and>
            os' = os @ concat (map groupBlock
              (zip (map fst (filter (\<lambda>(name, g). filterFn g) groups))
                (zip (groupStarts idStart (map (\<lambda>(name, g). getPaddedSizeFunc g)
                                             (filter (\<lambda>(name, g). filterFn g) groups)))
                  (zip (map (\<lambda>(name, g). getPaddedSizeFunc g)
                          (filter (\<lambda>(name, g). filterFn g) groups))
                       bodies)))))"
  using assms
proof (induction groups arbitrary: os idStart popSubs)
  case Nil
  then show ?case by simp
next
  case (Cons ng groups)
  obtain name g where ng: "ng = (name, g)"
    by (cases ng) auto
  show ?case
  proof (cases "filterFn g")
    case False
    with Cons.prems have run: "genParallelGroup_loop addVar getPaddedSizeFunc filterFn handler
             groups (os, idStart, popSubs) = Inr (os', idStart', popSubs')"
      and bound: "idStart + sum_list (map (\<lambda>(name, g). getPaddedSizeFunc g)
                              (filter (\<lambda>(name, g). filterFn g) groups)) < 2 ^ 64"
      by (simp_all add: ng)
    from Cons.IH [OF run bound] False show ?thesis
      by (simp add: ng)
  next
    case True
    define pad where "pad = getPaddedSizeFunc g"
    define repl where "repl = (if idStart = 0 then ''id'' else ''lid'')"
    from Cons.prems(2) True have bound: "idStart + pad +
        sum_list (map (\<lambda>(name, g). getPaddedSizeFunc g)
                    (filter (\<lambda>(name, g). filterFn g) groups)) < 2 ^ 64"
      by (simp add: ng pad_def add.assoc)
    then have "pad < 2 ^ 64" and "idStart + pad < 2 ^ 64"
      by simp_all
    then have wrapPad: "size_t (getPaddedSizeFunc g) = pad"
      and wrapPad': "size_t pad = pad"
      and wrapEnd: "size_t (idStart + pad) = idStart + pad"
      by (simp_all add: size_t_id pad_def)
    from Cons.prems(1) True obtain popSubs1 where
      add: "addVar ''id'' repl False popSubs = Inr popSubs1"
      by (cases "addVar ''id'' repl False popSubs")
        (auto simp: ng repl_def Let_def split: if_splits)
    from Cons.prems(1) True add obtain body popSubs2 where
      h: "handler g popSubs1 = Inr (body, popSubs2)"
      by (cases "handler g popSubs1") (auto simp: ng repl_def Let_def split: if_splits)
    have rest: "genParallelGroup_loop addVar getPaddedSizeFunc filterFn handler groups
        (os @ groupBlock (name, idStart, pad, body), idStart + pad, popSubs2) =
        Inr (os', idStart', popSubs')"
      using Cons.prems(1) True add h
      by (auto simp: ng repl_def wrapPad wrapPad' wrapEnd Let_def groupBlock_def groupOpen_def
          split: if_splits)
    from Cons.IH [OF rest bound] obtain bodies where
      total: "idStart' = idStart + pad +
           sum_list (map (\<lambda>(name, g). getPaddedSizeFunc g)
                       (filter (\<lambda>(name, g). filterFn g) groups))"
      and len: "length bodies = length (filter (\<lambda>(name, g). filterFn g) groups)"
      and out: "os' = (os @ groupBlock (name, idStart, pad, body)) @ concat (map groupBlock
              (zip (map fst (filter (\<lambda>(name, g). filterFn g) groups))
                (zip (groupStarts (idStart + pad) (map (\<lambda>(name, g). getPaddedSizeFunc g)
                                             (filter (\<lambda>(name, g). filterFn g) groups)))
                  (zip (map (\<lambda>(name, g). getPaddedSizeFunc g)
                          (filter (\<lambda>(name, g). filterFn g) groups))
                       bodies))))"
      by blast
    show ?thesis
    proof (intro conjI exI [of _ "body # bodies"])
      show "idStart' = idStart +
           sum_list (map (\<lambda>(name, g). getPaddedSizeFunc g)
                       (filter (\<lambda>(name, g). filterFn g) (ng # groups)))"
        using total True by (simp add: ng pad_def)
      show "length (body # bodies) = length (filter (\<lambda>(name, g). filterFn g) (ng # groups))"
        using len True by (simp add: ng)
      show "os' = os @ concat (map groupBlock
              (zip (map fst (filter (\<lambda>(name, g). filterFn g) (ng # groups)))
                (zip (groupStarts idStart (map (\<lambda>(name, g). getPaddedSizeFunc g)
                                             (filter (\<lambda>(name, g). filterFn g) (ng # groups))))
                  (zip (map (\<lambda>(name, g). getPaddedSizeFunc g)
                          (filter (\<lambda>(name, g). filterFn g) (ng # groups)))
                       (body # bodies)))))"
        using out True by (simp add: ng pad_def)
    qed
  qed
qed

lemma dvd_sum_list:
  fixes xs :: "nat list"
  shows "(\<forall>x \<in> set xs. d dvd x) \<Longrightarrow> d dvd sum_list xs"
  by (induction xs) simp_all

lemma ceil_of_multiple:
  assumes "0 < (w::nat)"
  shows "(w * q + w - 1) div w = q"
proof -
  define c where "c = (w * q + w - 1) div w"
  have "w * q \<le> c * w" and "c * w < w * q + w"
    using ceil_bounds [OF assms, of "w * q"] by (simp_all add: c_def)
  then have lo: "q * w \<le> c * w" and hi: "c * w < Suc q * w"
    by (simp_all add: mult.commute)
  from lo assms have "q \<le> c"
    by simp
  moreover from hi have "c < Suc q"
    by (simp only: mult_less_cancel2)
  ultimately show ?thesis
    by (simp add: c_def)
qed

lemma genKernelDimensions_multiple:
  assumes "0 < m_KernelWorkGroupSizes kern" and "m_KernelWorkGroupSizes kern dvd numThreads"
  shows "genKernelDimensions m_KernelWorkGroupSizes os kern numThreads =
           Inr (os @ [Str ''const cl::NDRange globalWorkSize('', Num numThreads, Str '', 1);'', Endl,
                      Str ''const cl::NDRange localWorkSize('',
                      Num (m_KernelWorkGroupSizes kern), Str '', 1);'', Endl])"
proof -
  from assms(2) obtain q where q: "numThreads = m_KernelWorkGroupSizes kern * q"
    by (auto simp: dvd_def)
  have "ceilDivide numThreads (m_KernelWorkGroupSizes kern) = Inr q"
    using assms(1) ceil_of_multiple [OF assms(1), of q] by (simp add: ceilDivide_def q)
  then show ?thesis
    by (simp add: genKernelDimensions_def q)
qed

text \<open>
  The arithmetic of the ranges. Whenever \<open>genParallelGroup\<close> returns normally and the
  padded sizes, added to the \<open>idStart\<close> passed in, stay below \<open>2^64\<close>, whatever the frame
  operations and the handler are: the stream has received, for the groups that pass the
  filter and in the order of the loop, one block per group guarded by the range that
  starts where the previous range ended, the first at the \<open>idStart\<close> passed in; each range
  ends where the next starts and the last ends at the final \<open>idStart\<close>; two different
  ranges are disjoint; the final \<open>idStart\<close> is the \<open>idStart\<close> passed in plus the sum of the
  padded sizes; and, when the padded sizes and the \<open>idStart\<close> passed in are multiples of
  the positive work-group size of the kernel, \<open>genKernelDimensions\<close> emits exactly the
  final \<open>idStart\<close> as the global work size.
\<close>

lemma genParallelGroup_returned_ranges:
  assumes run: "genParallelGroup newChild addVar os kernelSubs groups idStart getPaddedSizeFunc
                  filterFn handler = Inr (os', idStart')"
    and bound: "idStart + sum_list (map (\<lambda>(name, g). getPaddedSizeFunc g)
                                     (filter (\<lambda>(name, g). filterFn g) groups)) < 2 ^ 64"
    and wg: "0 < m_KernelWorkGroupSizes kern"
    and padded: "\<forall>(name, g) \<in> set groups.
                   filterFn g \<longrightarrow> m_KernelWorkGroupSizes kern dvd getPaddedSizeFunc g"
    and start: "m_KernelWorkGroupSizes kern dvd idStart"
  shows "\<exists>names pads starts bodies.
           names = map fst (filter (\<lambda>(name, g). filterFn g) groups) \<and>
           pads = map (\<lambda>(name, g). getPaddedSizeFunc g) (filter (\<lambda>(name, g). filterFn g) groups) \<and>
           starts = groupStarts idStart pads \<and>
           length bodies = length pads \<and>
           os' = os @ concat (map groupBlock (zip names (zip starts (zip pads bodies)))) \<and>
           (pads \<noteq> [] \<longrightarrow> starts ! 0 = idStart) \<and>
           (\<forall>k < length pads.
              starts ! k + pads ! k = (if Suc k < length pads then starts ! Suc k else idStart')) \<and>
           (\<forall>j k. j < k \<and> k < length pads \<longrightarrow>
              {starts ! j ..< starts ! j + pads ! j} \<inter> {starts ! k ..< starts ! k + pads ! k} = {}) \<and>
           idStart' = idStart + sum_list pads \<and>
           genKernelDimensions m_KernelWorkGroupSizes hostOs kern idStart' =
             Inr (hostOs @
                  [Str ''const cl::NDRange globalWorkSize('', Num idStart', Str '', 1);'', Endl,
                   Str ''const cl::NDRange localWorkSize('',
                   Num (m_KernelWorkGroupSizes kern), Str '', 1);'', Endl])"
proof -
  define names where "names = map fst (filter (\<lambda>(name, g). filterFn g) groups)"
  define pads where
    "pads = map (\<lambda>(name, g). getPaddedSizeFunc g) (filter (\<lambda>(name, g). filterFn g) groups)"
  define starts where "starts = groupStarts idStart pads"
  from run obtain popSubs' where
    loop: "genParallelGroup_loop addVar getPaddedSizeFunc filterFn handler groups
             (os, idStart, newChild kernelSubs) = Inr (os', idStart', popSubs')"
    by (auto simp: genParallelGroup_def split: sum.splits)
  from genParallelGroup_loop_blocks [OF loop bound] obtain bodies where
    total: "idStart' = idStart + sum_list pads"
    and len: "length bodies = length pads"
    and out: "os' = os @ concat (map groupBlock (zip names (zip starts (zip pads bodies))))"
    unfolding names_def pads_def starts_def by auto
  have first: "pads \<noteq> [] \<longrightarrow> starts ! 0 = idStart"
    by (cases pads) (simp_all add: starts_def)
  have contiguous: "\<forall>k < length pads.
      starts ! k + pads ! k = (if Suc k < length pads then starts ! Suc k else idStart')"
  proof (intro allI impI)
    fix k
    assume k: "k < length pads"
    have e: "starts ! k + pads ! k = idStart + sum_list (take (Suc k) pads)"
      unfolding starts_def by (rule groupStarts_end [OF k])
    show "starts ! k + pads ! k = (if Suc k < length pads then starts ! Suc k else idStart')"
    proof (cases "Suc k < length pads")
      case True
      then show ?thesis
        using e by (simp add: starts_def groupStarts_nth)
    next
      case False
      with k have "Suc k = length pads" by simp
      then show ?thesis
        using e total False by simp
    qed
  qed
  have disjoint: "\<forall>j k. j < k \<and> k < length pads \<longrightarrow>
      {starts ! j ..< starts ! j + pads ! j} \<inter> {starts ! k ..< starts ! k + pads ! k} = {}"
  proof (intro allI impI, elim conjE)
    fix j k
    assume "j < k" and "k < length pads"
    then have "starts ! j + pads ! j \<le> starts ! k"
      unfolding starts_def by (rule groupStarts_ordered)
    then show "{starts ! j ..< starts ! j + pads ! j} \<inter>
               {starts ! k ..< starts ! k + pads ! k} = {}"
      by auto
  qed
  have "\<forall>p \<in> set pads. m_KernelWorkGroupSizes kern dvd p"
    using padded by (auto simp: pads_def)
  then have "m_KernelWorkGroupSizes kern dvd sum_list pads"
    by (rule dvd_sum_list)
  with start total have mult: "m_KernelWorkGroupSizes kern dvd idStart'"
    by simp
  from genKernelDimensions_multiple
    [where m_KernelWorkGroupSizes = m_KernelWorkGroupSizes and kern = kern and os = hostOs,
      OF wg mult]
  have dims: "genKernelDimensions m_KernelWorkGroupSizes hostOs kern idStart' =
             Inr (hostOs @
                  [Str ''const cl::NDRange globalWorkSize('', Num idStart', Str '', 1);'', Endl,
                   Str ''const cl::NDRange localWorkSize('',
                   Num (m_KernelWorkGroupSizes kern), Str '', 1);'', Endl])" .
  show ?thesis
    by (rule exI [of _ names], rule exI [of _ pads], rule exI [of _ starts],
        rule exI [of _ bodies], intro conjI)
      (fact names_def, fact pads_def, fact starts_def, fact len, fact out, fact first,
       fact contiguous, fact disjoint, fact total, fact dims)
qed

subsection \<open>The frame shared by the groups\<close>

text \<open>
  With the frames of the specification: once \<open>id\<close> is bound in \<open>popSubs\<close>, the next group
  that passes the filter makes the call fail, because \<open>genParallelGroup\<close> adds \<open>id\<close> to the
  same frame again and does not request an override.
\<close>

lemma genParallelGroup_loop_id_bound:
  assumes "map_of vs ''id'' \<noteq> None" and "\<exists>(name, g) \<in> set groups. filterFn g"
  shows "genParallelGroup_loop addVarSubstitution getPaddedSizeFunc filterFn handler groups
           (os, idStart, Frame vs fs p) = Inl (SubstitutionError ''id'')"
  using assms
proof (induction groups)
  case Nil
  then show ?case by simp
next
  case (Cons ng groups)
  obtain name g where ng: "ng = (name, g)"
    by (cases ng) auto
  show ?case
  proof (cases "filterFn g")
    case True
    with Cons.prems(1) show ?thesis
      by (simp add: ng Let_def)
  next
    case False
    with Cons.prems(2) have "\<exists>(name, g) \<in> set groups. filterFn g"
      by (auto simp: ng)
    from Cons.IH [OF Cons.prems(1) this] False show ?thesis
      by (simp add: ng)
  qed
qed

text \<open>
  A handler cannot remove a binding from the frame it is given. So, whenever two or more
  groups pass the filter, \<open>genParallelGroup\<close> does not return normally: the first of these
  groups binds \<open>id\<close>, and the second one finds it bound.
\<close>

definition keepsId :: "('g \<Rightarrow> Substitutions \<Rightarrow> error + (CodeStream \<times> Substitutions)) \<Rightarrow> bool" where
  "keepsId handler =
     (\<forall>g popSubs body popSubs'.
        handler g popSubs = Inr (body, popSubs') \<longrightarrow>
        map_of (varSubstitutions popSubs) ''id'' \<noteq> None \<longrightarrow>
        map_of (varSubstitutions popSubs') ''id'' \<noteq> None)"

lemma genParallelGroup_loop_two_groups:
  assumes keeps: "keepsId handler"
    and two: "2 \<le> length (filter (\<lambda>(name, g). filterFn g) groups)"
  shows "\<exists>e. genParallelGroup_loop addVarSubstitution getPaddedSizeFunc filterFn handler groups
                (os, idStart, popSubs) = Inl e"
  using two
proof (induction groups)
  case Nil
  then show ?case by simp
next
  case (Cons ng groups)
  obtain name g where ng: "ng = (name, g)"
    by (cases ng) auto
  show ?case
  proof (cases "filterFn g")
    case False
    with Cons.prems have "2 \<le> length (filter (\<lambda>(name, g). filterFn g) groups)"
      by (simp add: ng)
    from Cons.IH [OF this] False show ?thesis
      by (simp add: ng)
  next
    case True
    with Cons.prems have "filter (\<lambda>(name, g). filterFn g) groups \<noteq> []"
      by (auto simp: ng)
    then have more: "\<exists>(name, g) \<in> set groups. filterFn g"
      by (auto simp: filter_empty_conv)
    obtain vs fs p where frame: "popSubs = Frame vs fs p"
      by (cases popSubs) auto
    define repl where "repl = (if idStart = 0 then ''id'' else ''lid'')"
    define os2 where "os2 = os @ [Str ''// Group '', Str name, Endl] @
      (if idStart = 0
       then [Str ''if(id < '', Num (size_t (getPaddedSizeFunc g)), Str '')'', OB 1]
       else [Str ''if(id >= '', Num idStart, Str '' && id < '',
             Num (size_t (idStart + size_t (getPaddedSizeFunc g))), Str '')'', OB 1,
             Str ''const unsigned int lid = id - '', Num idStart, Str '';'', Endl])"
    have step: "genParallelGroup_loop addVarSubstitution getPaddedSizeFunc filterFn handler
        (ng # groups) (os, idStart, popSubs) =
        (case addVarSubstitution ''id'' repl False popSubs of
           Inl e \<Rightarrow> Inl e
         | Inr popSubs1 \<Rightarrow>
             (case handler g popSubs1 of
                Inl e \<Rightarrow> Inl e
              | Inr (body, popSubs2) \<Rightarrow>
                  genParallelGroup_loop addVarSubstitution getPaddedSizeFunc filterFn handler
                    groups (os2 @ body @ [CB 1, Endl],
                            size_t (idStart + size_t (getPaddedSizeFunc g)), popSubs2)))"
      using True by (simp add: ng Let_def repl_def os2_def cong: sum.case_cong prod.case_cong)
    show ?thesis
    proof (cases "map_of vs ''id'' \<noteq> None")
      case True
      then show ?thesis
        unfolding step by (simp add: frame)
    next
      case False
      define popSubs1 where "popSubs1 = Frame (AList.update ''id'' repl vs) fs p"
      from False have add: "addVarSubstitution ''id'' repl False popSubs = Inr popSubs1"
        by (simp add: frame popSubs1_def)
      have bound1: "map_of (varSubstitutions popSubs1) ''id'' \<noteq> None"
        by (simp add: popSubs1_def update_conv')
      show ?thesis
      proof (cases "handler g popSubs1")
        case (Inl e)
        then show ?thesis
          unfolding step add by simp
      next
        case (Inr r)
        obtain body popSubs2 where r: "r = (body, popSubs2)"
          by (cases r) auto
        obtain vs2 fs2 p2 where frame2: "popSubs2 = Frame vs2 fs2 p2"
          by (cases popSubs2) auto
        from keeps Inr bound1 have "map_of (varSubstitutions popSubs2) ''id'' \<noteq> None"
          unfolding keepsId_def r by blast
        then have "map_of vs2 ''id'' \<noteq> None"
          by (simp add: frame2)
        then have rest: "genParallelGroup_loop addVarSubstitution getPaddedSizeFunc filterFn
            handler groups (os2 @ body @ [CB 1, Endl],
                            size_t (idStart + size_t (getPaddedSizeFunc g)), Frame vs2 fs2 p2) =
            Inl (SubstitutionError ''id'')"
          using more by (rule genParallelGroup_loop_id_bound)
        from Inr have h: "handler g popSubs1 = Inr (body, Frame vs2 fs2 p2)"
          by (simp add: r frame2)
        show ?thesis
          unfolding step add h sum.case prod.case rest by blast
      qed
    qed
  qed
qed

lemma genParallelGroup_two_groups:
  assumes "keepsId handler"
    and "2 \<le> length (filter (\<lambda>(name, g). filterFn g) groups)"
  shows "\<exists>e. genParallelGroup childOf addVarSubstitution os kernelSubs groups idStart
                getPaddedSizeFunc filterFn handler = Inl e"
proof -
  from genParallelGroup_loop_two_groups [OF assms] obtain e where
    "genParallelGroup_loop addVarSubstitution getPaddedSizeFunc filterFn handler groups
       (os, idStart, childOf kernelSubs) = Inl e"
    by blast
  then show ?thesis
    by (simp add: genParallelGroup_def)
qed

text \<open>
  Example inputs: a group is its padded size, the handler writes one comment and leaves
  the frame as it is, and the kernel frame binds the time.
\<close>

definition paddedOf :: "nat \<Rightarrow> nat" where
  "paddedOf g = g"

definition acceptAll :: "nat \<Rightarrow> bool" where
  "acceptAll g = True"

definition commentHandler :: "nat \<Rightarrow> Substitutions \<Rightarrow> error + (CodeStream \<times> Substitutions)" where
  "commentHandler g popSubs = Inr ([Str ''// work'', Endl], popSubs)"

definition kernelSubsT :: Substitutions where
  "kernelSubsT = Frame [(''t'', ''t'')] [] None"

definition allSizes32 :: "Kernel \<Rightarrow> nat" where
  "allSizes32 kern = 32"

text \<open>
  C2. Two neuron groups of 100 and 250 neurons, padded to the work-group size 32, have
  the padded sizes 128 and 256: they are to be given the ranges that start at 0 and at
  128, and the kernel is launched with the 384 threads that \<open>genKernelDimensions\<close>
  computes for their sum. With the frames of the specification \<open>genParallelGroup\<close>
  gives the first group its range and returns 128 when this group is alone; with both
  groups it fails at the second one, adding \<open>id\<close> again to the frame that the groups
  share: the second group is given no range and no final \<open>idStart\<close> is returned.
\<close>

theorem genParallelGroup_second_range_missing:
  "genParallelGroup childOf addVarSubstitution [] kernelSubsT
     [(''Exc'', 128)] 0 paddedOf acceptAll commentHandler =
     Inr ([Str ''// Group '', Str ''Exc'', Endl, Str ''if(id < '', Num 128, Str '')'', OB 1,
           Str ''// work'', Endl, CB 1, Endl], 128) \<and>
   genParallelGroup childOf addVarSubstitution [] kernelSubsT
     [(''Exc'', 128), (''Inh'', 256)] 0 paddedOf acceptAll commentHandler =
     Inl (SubstitutionError ''id'') \<and>
   groupStarts 0 [128, 256] = [0, 128] \<and>
   genKernelDimensions allSizes32 [] KernelNeuronUpdate (128 + 256) =
     Inr [Str ''const cl::NDRange globalWorkSize('', Num 384, Str '', 1);'', Endl,
          Str ''const cl::NDRange localWorkSize('', Num 32, Str '', 1);'', Endl]"
  by (simp add: genParallelGroup_def childOf_def kernelSubsT_def size_t_def
      paddedOf_def acceptAll_def commentHandler_def
      genKernelDimensions_def ceilDivide_def allSizes32_def)

text \<open>
  C5. With the frames of the specification, \<open>genParallelGroup\<close> dispatches one group,
  binding \<open>id\<close> in the frame it made before the loop; on a second group that passes the
  filter it adds \<open>id\<close> to that same frame again, without override, and the call fails:
  the second handler is never invoked and no group gets a frame of its own.
\<close>

theorem genParallelGroup_second_group_fails:
  "genParallelGroup childOf addVarSubstitution [] kernelSubsT
     [(''A'', 64)] 0 paddedOf acceptAll commentHandler =
     Inr ([Str ''// Group '', Str ''A'', Endl, Str ''if(id < '', Num 64, Str '')'', OB 1,
           Str ''// work'', Endl, CB 1, Endl], 64) \<and>
   genParallelGroup childOf addVarSubstitution [] kernelSubsT
     [(''A'', 64), (''B'', 32)] 0 paddedOf acceptAll commentHandler =
     Inl (SubstitutionError ''id'')"
  by (simp add: genParallelGroup_def childOf_def kernelSubsT_def size_t_def
      paddedOf_def acceptAll_def commentHandler_def)

section \<open>Kernel parameters of the OpenCL backend\<close>

text \<open>
  \<open>genMergedGroupKernelParams\<close> and \<open>setMergedGroupKernelParams\<close> read only the number of
  merged groups. Their \<open>for\<close> loops count \<open>i\<close> up to \<open>groups.size()\<close>.
\<close>

function genMergedGroupKernelParams_from ::
  "CodeStream \<Rightarrow> nat \<Rightarrow> string \<Rightarrow> bool \<Rightarrow> nat \<Rightarrow> CodeStream" where
  "genMergedGroupKernelParams_from os numGroups name includeFinalComma i =
     (if i < numGroups then
        genMergedGroupKernelParams_from
          (os @ [Str ''__global struct Merged'', Str name, Str ''Group'', Num i,
                 Str '' *d_merged'', Str name, Str ''Group'', Num i] @
                (if includeFinalComma \<or> i \<noteq> numGroups - 1 then [Str '', ''] else []))
          numGroups name includeFinalComma (Suc i)
      else os)"
  by pat_completeness auto
termination
  by (relation "measure (\<lambda>(os, numGroups, name, includeFinalComma, i). numGroups - i)") auto

declare genMergedGroupKernelParams_from.simps [simp del]

definition genMergedGroupKernelParams :: "CodeStream \<Rightarrow> 'm list \<Rightarrow> string \<Rightarrow> bool \<Rightarrow> CodeStream"
  where
  "genMergedGroupKernelParams os groups name includeFinalComma =
     genMergedGroupKernelParams_from os (length groups) name includeFinalComma 0"




subsection \<open>The declarations of the kernels that take the time\<close>




subsection \<open>The host code that configures and launches these kernels\<close>






text \<open>
  The host function \<open>updateNeurons\<close> as \<open>genNeuronUpdate\<close> writes it. \<open>idPreNeuronReset\<close>
  and \<open>idStart\<close> are the thread counts accumulated while the two kernels were written.
\<close>

definition genNeuronUpdate_updateNeurons ::
  "(Kernel \<Rightarrow> nat) \<Rightarrow> CodeStream \<Rightarrow> string \<Rightarrow> nat \<Rightarrow> nat \<Rightarrow> 'm list \<Rightarrow> error + CodeStream"
  where
  "genNeuronUpdate_updateNeurons m_KernelWorkGroupSizes os timePrecision idPreNeuronReset idStart
     mergedNeuronUpdateGroups =
     (case (if 0 < idPreNeuronReset then
              (case genKernelDimensions m_KernelWorkGroupSizes
                      (os @ [Str ''void updateNeurons('', Str timePrecision, Str '' t)'',
                             ScopeOpen, ScopeOpen])
                      KernelPreNeuronReset idPreNeuronReset of
                 Inl e \<Rightarrow> Inl e
               | Inr os1 \<Rightarrow>
                   Inr (os1 @
                        [Str ''CHECK_OPENCL_ERRORS(commandQueue.enqueueNDRangeKernel('',
                         Str (KernelNames KernelPreNeuronReset),
                         Str '', cl::NullRange, globalWorkSize, localWorkSize));'', Endl,
                         Endl, ScopeClose]))
            else Inr (os @ [Str ''void updateNeurons('', Str timePrecision, Str '' t)'',
                            ScopeOpen])) of
        Inl e \<Rightarrow> Inl e
      | Inr os2 \<Rightarrow>
          (case (if 0 < idStart then
                   (case genKernelDimensions m_KernelWorkGroupSizes
                           (os2 @ [ScopeOpen,
                                   Str ''CHECK_OPENCL_ERRORS('', Str (KernelNames KernelNeuronUpdate),
                                   Str ''.setArg('', Num (length mergedNeuronUpdateGroups),
                                   Str '', t));'', Endl, Endl])
                           KernelNeuronUpdate idStart of
                      Inl e \<Rightarrow> Inl e
                    | Inr os3 \<Rightarrow>
                        Inr (os3 @
                             [Str ''CHECK_OPENCL_ERRORS(commandQueue.enqueueNDRangeKernel('',
                              Str (KernelNames KernelNeuronUpdate),
                              Str '', cl::NullRange, globalWorkSize, localWorkSize));'', Endl,
                              ScopeClose]))
                 else Inr os2) of
             Inl e \<Rightarrow> Inl e
           | Inr os4 \<Rightarrow> Inr (os4 @ [ScopeClose])))"

text \<open>
  In \<open>updateSynapses\<close>, as \<open>genSynapseUpdate\<close> writes it: the block that launches a kernel
  taking the time. The two blocks differ in the kernel only.
\<close>

definition genSynapseUpdate_launchPresynapticUpdate ::
  "(Kernel \<Rightarrow> nat) \<Rightarrow> CodeStream \<Rightarrow> nat \<Rightarrow> 'm list \<Rightarrow> error + CodeStream" where
  "genSynapseUpdate_launchPresynapticUpdate m_KernelWorkGroupSizes os idPresynapticStart
     mergedPresynapticUpdateGroups =
     (if 0 < idPresynapticStart then
        (case genKernelDimensions m_KernelWorkGroupSizes
                (os @ [ScopeOpen,
                       Str ''CHECK_OPENCL_ERRORS('', Str (KernelNames KernelPresynapticUpdate),
                       Str ''.setArg('', Num (length mergedPresynapticUpdateGroups),
                       Str '', t));'', Endl, Endl])
                KernelPresynapticUpdate idPresynapticStart of
           Inl e \<Rightarrow> Inl e
         | Inr os1 \<Rightarrow>
             Inr (os1 @
                  [Str ''CHECK_OPENCL_ERRORS(commandQueue.enqueueNDRangeKernel('',
                   Str (KernelNames KernelPresynapticUpdate),
                   Str '', cl::NullRange, globalWorkSize, localWorkSize));'', Endl,
                   ScopeClose]))
      else Inr os)"

definition genSynapseUpdate_launchPostsynapticUpdate ::
  "(Kernel \<Rightarrow> nat) \<Rightarrow> CodeStream \<Rightarrow> nat \<Rightarrow> 'm list \<Rightarrow> error + CodeStream" where
  "genSynapseUpdate_launchPostsynapticUpdate m_KernelWorkGroupSizes os idPostsynapticStart
     mergedPostsynapticUpdateGroups =
     (if 0 < idPostsynapticStart then
        (case genKernelDimensions m_KernelWorkGroupSizes
                (os @ [ScopeOpen,
                       Str ''CHECK_OPENCL_ERRORS('', Str (KernelNames KernelPostsynapticUpdate),
                       Str ''.setArg('', Num (length mergedPostsynapticUpdateGroups),
                       Str '', t));'', Endl, Endl])
                KernelPostsynapticUpdate idPostsynapticStart of
           Inl e \<Rightarrow> Inl e
         | Inr os1 \<Rightarrow>
             Inr (os1 @
                  [Str ''CHECK_OPENCL_ERRORS(commandQueue.enqueueNDRangeKernel('',
                   Str (KernelNames KernelPostsynapticUpdate),
                   Str '', cl::NullRange, globalWorkSize, localWorkSize));'', Endl,
                   ScopeClose]))
      else Inr os)"

definition genSynapseUpdate_updateSynapses ::
  "(Kernel \<Rightarrow> nat) \<Rightarrow> CodeStream \<Rightarrow> string \<Rightarrow> nat \<Rightarrow> nat \<Rightarrow> nat \<Rightarrow> 'm list \<Rightarrow> 'n list \<Rightarrow>
     error + CodeStream" where
  "genSynapseUpdate_updateSynapses m_KernelWorkGroupSizes os timePrecision idPreSynapseReset
     idPresynapticStart idPostsynapticStart mergedPresynapticUpdateGroups
     mergedPostsynapticUpdateGroups =
     (case (if 0 < idPreSynapseReset then
              (case genKernelDimensions m_KernelWorkGroupSizes
                      (os @ [Str ''void updateSynapses('', Str timePrecision, Str '' t)'',
                             ScopeOpen, ScopeOpen])
                      KernelPreSynapseReset idPreSynapseReset of
                 Inl e \<Rightarrow> Inl e
               | Inr os1 \<Rightarrow>
                   Inr (os1 @
                        [Str ''CHECK_OPENCL_ERRORS(commandQueue.enqueueNDRangeKernel('',
                         Str (KernelNames KernelPreSynapseReset),
                         Str '', cl::NullRange, globalWorkSize, localWorkSize));'', Endl,
                         ScopeClose]))
            else Inr (os @ [Str ''void updateSynapses('', Str timePrecision, Str '' t)'',
                            ScopeOpen])) of
        Inl e \<Rightarrow> Inl e
      | Inr os2 \<Rightarrow>
          (case genSynapseUpdate_launchPresynapticUpdate m_KernelWorkGroupSizes os2
                  idPresynapticStart mergedPresynapticUpdateGroups of
             Inl e \<Rightarrow> Inl e
           | Inr os3 \<Rightarrow>
               (case genSynapseUpdate_launchPostsynapticUpdate m_KernelWorkGroupSizes os3
                       idPostsynapticStart mergedPostsynapticUpdateGroups of
                  Inl e \<Rightarrow> Inl e
                | Inr os4 \<Rightarrow> Inr (os4 @ [ScopeClose]))))"

subsection \<open>Parameters and arguments by position\<close>

text \<open>
  The device parameter for merged group \<open>i\<close>, the host statement that sets argument \<open>i\<close>
  to the buffer of merged group \<open>i\<close>, the host statement that sets argument \<open>n\<close> to the
  time, and the statement that enqueues a kernel.
\<close>

definition deviceParam :: "string \<Rightarrow> nat \<Rightarrow> CodeStream" where
  "deviceParam name i =
     [Str ''__global struct Merged'', Str name, Str ''Group'', Num i,
      Str '' *d_merged'', Str name, Str ''Group'', Num i]"


definition hostSetTime :: "string \<Rightarrow> nat \<Rightarrow> CodeStream" where
  "hostSetTime kernelName n =
     [Str ''CHECK_OPENCL_ERRORS('', Str kernelName, Str ''.setArg('', Num n, Str '', t));'', Endl]"

definition enqueueKernel :: "string \<Rightarrow> CodeStream" where
  "enqueueKernel kernelName =
     [Str ''CHECK_OPENCL_ERRORS(commandQueue.enqueueNDRangeKernel('', Str kernelName,
      Str '', cl::NullRange, globalWorkSize, localWorkSize));'', Endl]"

lemma genMergedGroupKernelParams_from_closed:
  "genMergedGroupKernelParams_from os numGroups name includeFinalComma i =
     os @ concat (map (\<lambda>k. deviceParam name k @
                            (if includeFinalComma \<or> k \<noteq> numGroups - 1 then [Str '', ''] else []))
                   [i..<numGroups])"
proof (induction os numGroups name includeFinalComma i rule: genMergedGroupKernelParams_from.induct)
  case (1 os numGroups name includeFinalComma i)
  show ?case
  proof (cases "i < numGroups")
    case False
    then show ?thesis
      by (simp add: genMergedGroupKernelParams_from.simps)
  next
    case True
    from "1.IH" [OF True] True show ?thesis
      by (subst genMergedGroupKernelParams_from.simps)
        (simp add: upt_conv_Cons deviceParam_def)
  qed
qed





lemma genKernelDimensions_appends:
  "0 < m_KernelWorkGroupSizes kern \<Longrightarrow>
   \<exists>dims. \<forall>os. genKernelDimensions m_KernelWorkGroupSizes os kern numThreads = Inr (os @ dims)"
  by (simp add: genKernelDimensions_def ceilDivide_def)
lemma genNeuronUpdate_updateNeurons_closed:
  assumes "0 < idStart" and "0 < m_KernelWorkGroupSizes KernelNeuronUpdate"
    and "0 < idPreNeuronReset \<longrightarrow> 0 < m_KernelWorkGroupSizes KernelPreNeuronReset"
  shows "\<exists>dimsReset dimsUpdate.
           (\<forall>s. 0 < idPreNeuronReset \<longrightarrow>
                genKernelDimensions m_KernelWorkGroupSizes s KernelPreNeuronReset idPreNeuronReset =
                  Inr (s @ dimsReset)) \<and>
           (\<forall>s. genKernelDimensions m_KernelWorkGroupSizes s KernelNeuronUpdate idStart =
                  Inr (s @ dimsUpdate)) \<and>
           genNeuronUpdate_updateNeurons m_KernelWorkGroupSizes os timePrecision idPreNeuronReset
             idStart mergedNeuronUpdateGroups =
             Inr (os @ [Str ''void updateNeurons('', Str timePrecision, Str '' t)'', ScopeOpen] @
                  (if 0 < idPreNeuronReset
                   then [ScopeOpen] @ dimsReset @
                        enqueueKernel (KernelNames KernelPreNeuronReset) @ [Endl, ScopeClose]
                   else []) @
                  [ScopeOpen] @
                  hostSetTime (KernelNames KernelNeuronUpdate) (length mergedNeuronUpdateGroups) @
                  [Endl] @ dimsUpdate @
                  enqueueKernel (KernelNames KernelNeuronUpdate) @ [ScopeClose, ScopeClose])"
proof -
  from genKernelDimensions_appends
    [where m_KernelWorkGroupSizes = m_KernelWorkGroupSizes and kern = KernelNeuronUpdate,
      OF assms(2), of idStart]
  obtain dimsUpdate where
    u: "\<forall>s. genKernelDimensions m_KernelWorkGroupSizes s KernelNeuronUpdate idStart =
               Inr (s @ dimsUpdate)"
    by blast
  show ?thesis
  proof (cases "0 < idPreNeuronReset")
    case False
    show ?thesis
      using False assms(1) u
      by (intro exI [of _ "[]"] exI [of _ dimsUpdate])
        (simp add: genNeuronUpdate_updateNeurons_def hostSetTime_def enqueueKernel_def)
  next
    case True
    with assms(3) have "0 < m_KernelWorkGroupSizes KernelPreNeuronReset"
      by simp
    from genKernelDimensions_appends
      [where m_KernelWorkGroupSizes = m_KernelWorkGroupSizes and kern = KernelPreNeuronReset,
        OF this, of idPreNeuronReset]
    obtain dimsReset where
      r: "\<forall>s. genKernelDimensions m_KernelWorkGroupSizes s KernelPreNeuronReset idPreNeuronReset =
                 Inr (s @ dimsReset)"
      by blast
    show ?thesis
      using True assms(1) u r
      by (intro exI [of _ dimsReset] exI [of _ dimsUpdate])
        (simp add: genNeuronUpdate_updateNeurons_def hostSetTime_def enqueueKernel_def)
  qed
qed




section \<open>The kernel that advances the spike queues\<close>

text \<open>
  The neuron group class is declared elsewhere; the record holds the accessors that the
  emitted code depends on, with \<open>getThresholdConditionCode\<close> standing for
  \<open>getNeuronModel()->getThresholdConditionCode()\<close>. The archetype of a merged group is the
  front of its vector of groups, which is undefined for an empty vector.
\<close>

record NeuronGroupInternal =
  getNumNeurons :: nat
  isDelayRequired :: bool
  getNumDelaySlots :: nat
  isSpikeEventRequired :: bool
  isTrueSpikeRequired :: bool
  isSpikeTimeRequired :: bool
  isSimRNGRequired :: bool
  getThresholdConditionCode :: string

definition getArchetype :: "('g, 'r) MergedGroup \<Rightarrow> error + 'g" where
  "getArchetype m = (case getGroups m of [] \<Rightarrow> Inl AssertionFailed | front # others \<Rightarrow> Inr front)"

text \<open>
  The part of \<open>genNeuronUpdate\<close> that writes \<open>preNeuronResetKernel\<close>. The method
  \<open>genMergedGroupSpikeCountReset\<close> of a merged group is declared elsewhere: it is the
  parameter that gives the text the method writes. The loop carries the stream and
  \<open>idPreNeuronReset\<close>.
\<close>

fun genNeuronUpdate_preNeuronReset_loop ::
  "((NeuronGroupInternal, 'r) MergedGroup \<Rightarrow> CodeStream) \<Rightarrow>
   (NeuronGroupInternal, 'r) MergedGroup list \<Rightarrow> CodeStream \<times> nat \<Rightarrow> error + (CodeStream \<times> nat)"
  where
  "genNeuronUpdate_preNeuronReset_loop genMergedGroupSpikeCountReset [] st = Inr st"
| "genNeuronUpdate_preNeuronReset_loop genMergedGroupSpikeCountReset (n # ns)
     (neuronUpdateKernels, idPreNeuronReset) =
     (case getArchetype n of
        Inl e \<Rightarrow> Inl e
      | Inr archetype \<Rightarrow>
          genNeuronUpdate_preNeuronReset_loop genMergedGroupSpikeCountReset ns
            (neuronUpdateKernels @
             [Str ''// merged'', Num (getIndex n), Endl] @
             (if idPreNeuronReset = 0
              then [Str ''if(id < '', Num (length (getGroups n)), Str '')'']
              else [Str ''if(id >= '', Num idPreNeuronReset, Str '' && id < '',
                    Num (idPreNeuronReset + length (getGroups n)), Str '')'']) @
             [ScopeOpen,
              Str ''__global struct MergedNeuronSpikeQueueUpdateGroup'', Num (getIndex n),
              Str '' *group = &d_mergedNeuronSpikeQueueUpdateGroup'', Num (getIndex n),
              Str ''[id - '', Num idPreNeuronReset, Str '']; '', Endl] @
             (if isDelayRequired archetype
              then [Str ''*group->spkQuePtr  = (*group->spkQuePtr + 1) % '',
                    Num (getNumDelaySlots archetype), Str '';'', Endl]
              else []) @
             genMergedGroupSpikeCountReset n @
             [ScopeClose],
             idPreNeuronReset + length (getGroups n)))"

definition genNeuronUpdate_preNeuronReset ::
  "((NeuronGroupInternal, 'r) MergedGroup \<Rightarrow> CodeStream) \<Rightarrow> CodeStream \<Rightarrow>
   (NeuronGroupInternal, 'r) MergedGroup list \<Rightarrow> error + (CodeStream \<times> nat)" where
  "genNeuronUpdate_preNeuronReset genMergedGroupSpikeCountReset neuronUpdateKernels
     mergedNeuronSpikeQueueUpdateGroups =
     (case genNeuronUpdate_preNeuronReset_loop genMergedGroupSpikeCountReset
             mergedNeuronSpikeQueueUpdateGroups
             (genMergedGroupKernelParams
                (neuronUpdateKernels @
                 [Str ''__kernel void '', Str (KernelNames KernelPreNeuronReset), Str ''(''])
                mergedNeuronSpikeQueueUpdateGroups ''NeuronSpikeQueueUpdate'' False
              @ [Str '')'', ScopeOpen, Str ''const unsigned int id = get_global_id(0);'', Endl],
              0) of
        Inl e \<Rightarrow> Inl e
      | Inr (os, idPreNeuronReset) \<Rightarrow> Inr (os @ [ScopeClose, Endl], idPreNeuronReset))"

subsection \<open>One thread for each member\<close>

text \<open>
  What a thread of the range of a merged group executes: the guard on the range that
  starts at \<open>start\<close> and has one thread per member, the pointer to the struct of member
  \<open>id - start\<close>, the advance of the queue pointer modulo the number of delay slots when
  the archetype requires delay, and the reset of the spike counts.
\<close>

definition resetBlock ::
  "((NeuronGroupInternal, 'r) MergedGroup \<Rightarrow> CodeStream) \<Rightarrow>
   (NeuronGroupInternal, 'r) MergedGroup \<times> NeuronGroupInternal \<times> nat \<Rightarrow> CodeStream" where
  "resetBlock spikeCountReset b = (case b of (n, archetype, start) \<Rightarrow>
     [Str ''// merged'', Num (getIndex n), Endl] @
     (if start = 0 then [Str ''if(id < '', Num (length (getGroups n)), Str '')'']
      else [Str ''if(id >= '', Num start, Str '' && id < '',
            Num (start + length (getGroups n)), Str '')'']) @
     [ScopeOpen,
      Str ''__global struct MergedNeuronSpikeQueueUpdateGroup'', Num (getIndex n),
      Str '' *group = &d_mergedNeuronSpikeQueueUpdateGroup'', Num (getIndex n),
      Str ''[id - '', Num start, Str '']; '', Endl] @
     (if isDelayRequired archetype
      then [Str ''*group->spkQuePtr  = (*group->spkQuePtr + 1) % '',
            Num (getNumDelaySlots archetype), Str '';'', Endl]
      else []) @
     spikeCountReset n @ [ScopeClose])"

lemma genNeuronUpdate_preNeuronReset_loop_blocks:
  assumes "\<forall>n \<in> set ns. getGroups n \<noteq> []"
  shows "\<exists>archetypes.
           list_all2 (\<lambda>n a. getArchetype n = Inr a) ns archetypes \<and>
           genNeuronUpdate_preNeuronReset_loop spikeCountReset ns (os, start) =
             Inr (os @ concat (map (resetBlock spikeCountReset)
                    (zip ns (zip archetypes
                       (groupStarts start (map (\<lambda>n. length (getGroups n)) ns))))),
                  start + sum_list (map (\<lambda>n. length (getGroups n)) ns))"
  using assms
proof (induction ns arbitrary: os start)
  case Nil
  show ?case by simp
next
  case (Cons n ns)
  from Cons.prems obtain a others where g: "getGroups n = a # others"
    by (cases "getGroups n") auto
  then have arch: "getArchetype n = Inr a"
    by (simp add: getArchetype_def)
  from Cons.prems have "\<forall>n \<in> set ns. getGroups n \<noteq> []"
    by simp
  from Cons.IH [OF this, of "os @ resetBlock spikeCountReset (n, a, start)"
      "start + length (getGroups n)"]
  obtain archetypes where
    all: "list_all2 (\<lambda>n a. getArchetype n = Inr a) ns archetypes"
    and run: "genNeuronUpdate_preNeuronReset_loop spikeCountReset ns
             (os @ resetBlock spikeCountReset (n, a, start), start + length (getGroups n)) =
             Inr ((os @ resetBlock spikeCountReset (n, a, start)) @
                  concat (map (resetBlock spikeCountReset)
                    (zip ns (zip archetypes
                       (groupStarts (start + length (getGroups n))
                          (map (\<lambda>n. length (getGroups n)) ns))))),
                  start + length (getGroups n) + sum_list (map (\<lambda>n. length (getGroups n)) ns))"
    by blast
  have step: "genNeuronUpdate_preNeuronReset_loop spikeCountReset (n # ns) (os, start) =
      genNeuronUpdate_preNeuronReset_loop spikeCountReset ns
        (os @ resetBlock spikeCountReset (n, a, start), start + length (getGroups n))"
    by (simp add: arch resetBlock_def)
  have whole: "genNeuronUpdate_preNeuronReset_loop spikeCountReset (n # ns) (os, start) =
      Inr (os @ concat (map (resetBlock spikeCountReset)
             (zip (n # ns) (zip (a # archetypes)
                (groupStarts start (map (\<lambda>n. length (getGroups n)) (n # ns)))))),
           start + sum_list (map (\<lambda>n. length (getGroups n)) (n # ns)))"
    unfolding step run by (simp add: add.assoc)
  have "list_all2 (\<lambda>n a. getArchetype n = Inr a) (n # ns) (a # archetypes)"
    using all arch by simp
  with whole show ?case
    by blast
qed
text \<open>
  Example: a merged group of two neuron groups with five delay slots and a merged group
  of one neuron group without delay; the reset of the spike counts writes one statement.
\<close>

definition ngDelayed :: NeuronGroupInternal where
  "ngDelayed = \<lparr>getNumNeurons = 100, isDelayRequired = True, getNumDelaySlots = 5,
     isSpikeEventRequired = False, isTrueSpikeRequired = True, isSpikeTimeRequired = False,
     isSimRNGRequired = False, getThresholdConditionCode = ''$(V) >= 10.0''\<rparr>"

definition ngPlain :: NeuronGroupInternal where
  "ngPlain = \<lparr>getNumNeurons = 250, isDelayRequired = False, getNumDelaySlots = 1,
     isSpikeEventRequired = False, isTrueSpikeRequired = True, isSpikeTimeRequired = False,
     isSimRNGRequired = False, getThresholdConditionCode = ''$(V) >= 10.0''\<rparr>"

definition queueGroups :: "(NeuronGroupInternal, unit) MergedGroup list" where
  "queueGroups =
     [\<lparr>getIndex = 0, getPrefix = ''NeuronSpikeQueueUpdate'', getGroups = [ngDelayed, ngDelayed],
       getRole = ()\<rparr>,
      \<lparr>getIndex = 1, getPrefix = ''NeuronSpikeQueueUpdate'', getGroups = [ngPlain],
       getRole = ()\<rparr>]"

definition resetCounts :: "(NeuronGroupInternal, unit) MergedGroup \<Rightarrow> CodeStream" where
  "resetCounts n = [Str ''group->spkCnt[0] = 0;'', Endl]"

text \<open>
  C7. For merged spike-queue-update groups that are not empty,
  \<open>preNeuronResetKernel\<close> is written without failure: it takes one struct pointer per
  merged group; merged group \<open>k\<close> gets the range that starts at the number of members of
  the merged groups before it and has one thread per member; in that range the thread
  \<open>id\<close> takes the struct of member \<open>id - start\<close>, advances \<open>*group->spkQuePtr\<close> by one
  modulo the number of delay slots of the archetype when the archetype requires delay,
  and then resets the spike counts; the thread count of the kernel is the number of
  members. In \<open>updateNeurons\<close>, when both kernels have threads, the statement that
  enqueues \<open>preNeuronResetKernel\<close> on \<open>commandQueue\<close> comes before the statement that
  enqueues \<open>updateNeuronsKernel\<close> on it.
\<close>

theorem preNeuronReset_advances_queues:
  assumes nonempty: "\<forall>n \<in> set groups. getGroups n \<noteq> []"
  shows "\<exists>archetypes.
           list_all2 (\<lambda>n a. getArchetype n = Inr a) groups archetypes \<and>
           genNeuronUpdate_preNeuronReset spikeCountReset dev groups =
             Inr (dev @ [Str ''__kernel void '', Str ''preNeuronResetKernel'', Str ''(''] @
                  concat (map (\<lambda>i. deviceParam ''NeuronSpikeQueueUpdate'' i @
                                     (if i \<noteq> length groups - 1 then [Str '', ''] else []))
                            [0..<length groups]) @
                  [Str '')'', ScopeOpen, Str ''const unsigned int id = get_global_id(0);'', Endl] @
                  concat (map (resetBlock spikeCountReset)
                            (zip groups (zip archetypes
                               (groupStarts 0 (map (\<lambda>n. length (getGroups n)) groups))))) @
                  [ScopeClose, Endl],
                  sum_list (map (\<lambda>n. length (getGroups n)) groups)) \<and>
           (groups \<noteq> [] \<and> 0 < idStart \<and> 0 < m_KernelWorkGroupSizes KernelPreNeuronReset \<and>
            0 < m_KernelWorkGroupSizes KernelNeuronUpdate \<longrightarrow>
              (\<exists>before between after.
                 genNeuronUpdate_updateNeurons m_KernelWorkGroupSizes host timePrecision
                   (sum_list (map (\<lambda>n. length (getGroups n)) groups)) idStart
                   mergedNeuronUpdateGroups =
                   Inr (before @ enqueueKernel ''preNeuronResetKernel'' @ between @
                        enqueueKernel ''updateNeuronsKernel'' @ after)))"
proof -
  define threads where "threads = sum_list (map (\<lambda>n. length (getGroups n)) groups)"
  from genNeuronUpdate_preNeuronReset_loop_blocks [OF nonempty, of spikeCountReset _ 0]
  have "\<forall>os. \<exists>archetypes.
           list_all2 (\<lambda>n a. getArchetype n = Inr a) groups archetypes \<and>
           genNeuronUpdate_preNeuronReset_loop spikeCountReset groups (os, 0) =
             Inr (os @ concat (map (resetBlock spikeCountReset)
                    (zip groups (zip archetypes
                       (groupStarts 0 (map (\<lambda>n. length (getGroups n)) groups))))),
                  threads)"
    by (simp add: threads_def)
  then obtain archetypes where
    arch: "list_all2 (\<lambda>n a. getArchetype n = Inr a) groups archetypes"
    and loop: "genNeuronUpdate_preNeuronReset_loop spikeCountReset groups
             (genMergedGroupKernelParams
                (dev @ [Str ''__kernel void '', Str (KernelNames KernelPreNeuronReset), Str ''(''])
                groups ''NeuronSpikeQueueUpdate'' False
              @ [Str '')'', ScopeOpen, Str ''const unsigned int id = get_global_id(0);'', Endl],
              0) =
             Inr ((genMergedGroupKernelParams
                (dev @ [Str ''__kernel void '', Str (KernelNames KernelPreNeuronReset), Str ''(''])
                groups ''NeuronSpikeQueueUpdate'' False
              @ [Str '')'', ScopeOpen, Str ''const unsigned int id = get_global_id(0);'', Endl]) @
                  concat (map (resetBlock spikeCountReset)
                    (zip groups (zip archetypes
                       (groupStarts 0 (map (\<lambda>n. length (getGroups n)) groups))))),
                  threads)"
    by blast
  have kernel: "genNeuronUpdate_preNeuronReset spikeCountReset dev groups =
             Inr (dev @ [Str ''__kernel void '', Str ''preNeuronResetKernel'', Str ''(''] @
                  concat (map (\<lambda>i. deviceParam ''NeuronSpikeQueueUpdate'' i @
                                     (if i \<noteq> length groups - 1 then [Str '', ''] else []))
                            [0..<length groups]) @
                  [Str '')'', ScopeOpen, Str ''const unsigned int id = get_global_id(0);'', Endl] @
                  concat (map (resetBlock spikeCountReset)
                            (zip groups (zip archetypes
                               (groupStarts 0 (map (\<lambda>n. length (getGroups n)) groups))))) @
                  [ScopeClose, Endl],
                  threads)"
    unfolding genNeuronUpdate_preNeuronReset_def loop
    by (simp add: genMergedGroupKernelParams_def genMergedGroupKernelParams_from_closed)
  have order: "\<exists>before between after.
                 genNeuronUpdate_updateNeurons m_KernelWorkGroupSizes host timePrecision
                   threads idStart mergedNeuronUpdateGroups =
                   Inr (before @ enqueueKernel ''preNeuronResetKernel'' @ between @
                        enqueueKernel ''updateNeuronsKernel'' @ after)"
    if ne: "groups \<noteq> []" and s: "0 < idStart"
      and wr: "0 < m_KernelWorkGroupSizes KernelPreNeuronReset"
      and wu: "0 < m_KernelWorkGroupSizes KernelNeuronUpdate"
  proof -
    from ne obtain n ns where "groups = n # ns"
      by (cases groups) auto
    with nonempty have pos: "0 < threads"
      by (simp add: threads_def)
    from wr have wr': "0 < threads \<longrightarrow> 0 < m_KernelWorkGroupSizes KernelPreNeuronReset"
      by simp
    from genNeuronUpdate_updateNeurons_closed
      [where m_KernelWorkGroupSizes = m_KernelWorkGroupSizes and idPreNeuronReset = threads,
        OF s wu wr', of host timePrecision mergedNeuronUpdateGroups]
    obtain dimsReset dimsUpdate where
      "genNeuronUpdate_updateNeurons m_KernelWorkGroupSizes host timePrecision threads
             idStart mergedNeuronUpdateGroups =
             Inr (host @ [Str ''void updateNeurons('', Str timePrecision, Str '' t)'', ScopeOpen] @
                  (if 0 < threads
                   then [ScopeOpen] @ dimsReset @
                        enqueueKernel (KernelNames KernelPreNeuronReset) @ [Endl, ScopeClose]
                   else []) @
                  [ScopeOpen] @
                  hostSetTime (KernelNames KernelNeuronUpdate) (length mergedNeuronUpdateGroups) @
                  [Endl] @ dimsUpdate @
                  enqueueKernel (KernelNames KernelNeuronUpdate) @ [ScopeClose, ScopeClose])"
      by blast
    with pos show ?thesis
      by (intro exI [of _ "host @ [Str ''void updateNeurons('', Str timePrecision, Str '' t)'',
                                   ScopeOpen, ScopeOpen] @ dimsReset"]
          exI [of _ "[Endl, ScopeClose, ScopeOpen] @
                     hostSetTime ''updateNeuronsKernel'' (length mergedNeuronUpdateGroups) @
                     [Endl] @ dimsUpdate"]
          exI [of _ "[ScopeClose, ScopeClose]"]) simp
  qed
  have orderImp: "groups \<noteq> [] \<and> 0 < idStart \<and> 0 < m_KernelWorkGroupSizes KernelPreNeuronReset \<and>
            0 < m_KernelWorkGroupSizes KernelNeuronUpdate \<longrightarrow>
              (\<exists>before between after.
                 genNeuronUpdate_updateNeurons m_KernelWorkGroupSizes host timePrecision
                   threads idStart mergedNeuronUpdateGroups =
                   Inr (before @ enqueueKernel ''preNeuronResetKernel'' @ between @
                        enqueueKernel ''updateNeuronsKernel'' @ after))"
    using order by blast
  show ?thesis
    unfolding threads_def [symmetric]
    by (rule exI [of _ archetypes], intro conjI) (fact arch, fact kernel, fact orderImp)
qed

theorem preNeuronReset_advances_queues_witness:
  "genNeuronUpdate_preNeuronReset resetCounts [] queueGroups =
     Inr ([Str ''__kernel void '', Str ''preNeuronResetKernel'', Str ''('',
           Str ''__global struct Merged'', Str ''NeuronSpikeQueueUpdate'', Str ''Group'', Num 0,
           Str '' *d_merged'', Str ''NeuronSpikeQueueUpdate'', Str ''Group'', Num 0, Str '', '',
           Str ''__global struct Merged'', Str ''NeuronSpikeQueueUpdate'', Str ''Group'', Num 1,
           Str '' *d_merged'', Str ''NeuronSpikeQueueUpdate'', Str ''Group'', Num 1,
           Str '')'', ScopeOpen, Str ''const unsigned int id = get_global_id(0);'', Endl,
           Str ''// merged'', Num 0, Endl, Str ''if(id < '', Num 2, Str '')'', ScopeOpen,
           Str ''__global struct MergedNeuronSpikeQueueUpdateGroup'', Num 0,
           Str '' *group = &d_mergedNeuronSpikeQueueUpdateGroup'', Num 0,
           Str ''[id - '', Num 0, Str '']; '', Endl,
           Str ''*group->spkQuePtr  = (*group->spkQuePtr + 1) % '', Num 5, Str '';'', Endl,
           Str ''group->spkCnt[0] = 0;'', Endl, ScopeClose,
           Str ''// merged'', Num 1, Endl,
           Str ''if(id >= '', Num 2, Str '' && id < '', Num 3, Str '')'', ScopeOpen,
           Str ''__global struct MergedNeuronSpikeQueueUpdateGroup'', Num 1,
           Str '' *group = &d_mergedNeuronSpikeQueueUpdateGroup'', Num 1,
           Str ''[id - '', Num 2, Str '']; '', Endl,
           Str ''group->spkCnt[0] = 0;'', Endl, ScopeClose,
           ScopeClose, Endl], 3) \<and>
   genNeuronUpdate_updateNeurons allSizes32 [] ''float'' 3 64 [10, 20::nat] =
     Inr [Str ''void updateNeurons('', Str ''float'', Str '' t)'', ScopeOpen, ScopeOpen,
          Str ''const cl::NDRange globalWorkSize('', Num 32, Str '', 1);'', Endl,
          Str ''const cl::NDRange localWorkSize('', Num 32, Str '', 1);'', Endl,
          Str ''CHECK_OPENCL_ERRORS(commandQueue.enqueueNDRangeKernel('',
          Str ''preNeuronResetKernel'',
          Str '', cl::NullRange, globalWorkSize, localWorkSize));'', Endl, Endl, ScopeClose,
          ScopeOpen,
          Str ''CHECK_OPENCL_ERRORS('', Str ''updateNeuronsKernel'', Str ''.setArg('', Num 2,
          Str '', t));'', Endl, Endl,
          Str ''const cl::NDRange globalWorkSize('', Num 64, Str '', 1);'', Endl,
          Str ''const cl::NDRange localWorkSize('', Num 32, Str '', 1);'', Endl,
          Str ''CHECK_OPENCL_ERRORS(commandQueue.enqueueNDRangeKernel('',
          Str ''updateNeuronsKernel'',
          Str '', cl::NullRange, globalWorkSize, localWorkSize));'', Endl,
          ScopeClose, ScopeClose]"
proof -
  have nonempty: "\<forall>n \<in> set queueGroups. getGroups n \<noteq> []"
    by (simp add: queueGroups_def)
  from preNeuronReset_advances_queues
    [where groups = queueGroups and spikeCountReset = resetCounts and dev = "[]", OF nonempty]
  obtain archetypes where
    arch: "list_all2 (\<lambda>n a. getArchetype n = Inr a) queueGroups archetypes"
    and kernel: "genNeuronUpdate_preNeuronReset resetCounts [] queueGroups =
             Inr ([] @ [Str ''__kernel void '', Str ''preNeuronResetKernel'', Str ''(''] @
                  concat (map (\<lambda>i. deviceParam ''NeuronSpikeQueueUpdate'' i @
                                     (if i \<noteq> length queueGroups - 1 then [Str '', ''] else []))
                            [0..<length queueGroups]) @
                  [Str '')'', ScopeOpen, Str ''const unsigned int id = get_global_id(0);'', Endl] @
                  concat (map (resetBlock resetCounts)
                            (zip queueGroups (zip archetypes
                               (groupStarts 0 (map (\<lambda>n. length (getGroups n)) queueGroups))))) @
                  [ScopeClose, Endl],
                  sum_list (map (\<lambda>n. length (getGroups n)) queueGroups))"
    by blast
  from arch have "archetypes = [ngDelayed, ngPlain]"
    by (auto simp: queueGroups_def getArchetype_def list_all2_Cons1)
  with kernel have first: "genNeuronUpdate_preNeuronReset resetCounts [] queueGroups =
     Inr ([Str ''__kernel void '', Str ''preNeuronResetKernel'', Str ''('',
           Str ''__global struct Merged'', Str ''NeuronSpikeQueueUpdate'', Str ''Group'', Num 0,
           Str '' *d_merged'', Str ''NeuronSpikeQueueUpdate'', Str ''Group'', Num 0, Str '', '',
           Str ''__global struct Merged'', Str ''NeuronSpikeQueueUpdate'', Str ''Group'', Num 1,
           Str '' *d_merged'', Str ''NeuronSpikeQueueUpdate'', Str ''Group'', Num 1,
           Str '')'', ScopeOpen, Str ''const unsigned int id = get_global_id(0);'', Endl,
           Str ''// merged'', Num 0, Endl, Str ''if(id < '', Num 2, Str '')'', ScopeOpen,
           Str ''__global struct MergedNeuronSpikeQueueUpdateGroup'', Num 0,
           Str '' *group = &d_mergedNeuronSpikeQueueUpdateGroup'', Num 0,
           Str ''[id - '', Num 0, Str '']; '', Endl,
           Str ''*group->spkQuePtr  = (*group->spkQuePtr + 1) % '', Num 5, Str '';'', Endl,
           Str ''group->spkCnt[0] = 0;'', Endl, ScopeClose,
           Str ''// merged'', Num 1, Endl,
           Str ''if(id >= '', Num 2, Str '' && id < '', Num 3, Str '')'', ScopeOpen,
           Str ''__global struct MergedNeuronSpikeQueueUpdateGroup'', Num 1,
           Str '' *group = &d_mergedNeuronSpikeQueueUpdateGroup'', Num 1,
           Str ''[id - '', Num 2, Str '']; '', Endl,
           Str ''group->spkCnt[0] = 0;'', Endl, ScopeClose,
           ScopeClose, Endl], 3)"
    by (simp add: queueGroups_def deviceParam_def resetBlock_def resetCounts_def
        ngDelayed_def ngPlain_def upt_conv_Cons)
  have second: "genNeuronUpdate_updateNeurons allSizes32 [] ''float'' 3 64 [10, 20::nat] =
     Inr [Str ''void updateNeurons('', Str ''float'', Str '' t)'', ScopeOpen, ScopeOpen,
          Str ''const cl::NDRange globalWorkSize('', Num 32, Str '', 1);'', Endl,
          Str ''const cl::NDRange localWorkSize('', Num 32, Str '', 1);'', Endl,
          Str ''CHECK_OPENCL_ERRORS(commandQueue.enqueueNDRangeKernel('',
          Str ''preNeuronResetKernel'',
          Str '', cl::NullRange, globalWorkSize, localWorkSize));'', Endl, Endl, ScopeClose,
          ScopeOpen,
          Str ''CHECK_OPENCL_ERRORS('', Str ''updateNeuronsKernel'', Str ''.setArg('', Num 2,
          Str '', t));'', Endl, Endl,
          Str ''const cl::NDRange globalWorkSize('', Num 64, Str '', 1);'', Endl,
          Str ''const cl::NDRange localWorkSize('', Num 32, Str '', 1);'', Endl,
          Str ''CHECK_OPENCL_ERRORS(commandQueue.enqueueNDRangeKernel('',
          Str ''updateNeuronsKernel'',
          Str '', cl::NullRange, globalWorkSize, localWorkSize));'', Endl,
          ScopeClose, ScopeClose]"
    by (simp add: genNeuronUpdate_updateNeurons_def genKernelDimensions_def ceilDivide_def
        allSizes32_def)
  from first second show ?thesis
    by (intro conjI)
qed

section \<open>Spike emission and compaction in the neuron update kernel\<close>

text \<open>
  \<open>Backend::genEmitSpike\<close> stages a spike in local memory: it reads the replacement of
  \<open>id\<close> from the frame with \<open>operator[]\<close>, which fails when \<open>id\<close> is not defined.
\<close>

definition genEmitSpike :: "Substitutions \<Rightarrow> string \<Rightarrow> error + CodeStream" where
  "genEmitSpike subs suffix =
     (case getVarSubstitution ''id'' subs of
        Inl e \<Rightarrow> Inl e
      | Inr idRepl \<Rightarrow>
          Inr [Str ''const unsigned int spk'', Str suffix, Str ''Idx = atomic_add(&shSpk'',
               Str suffix, Str ''Count, 1);'', Endl,
               Str ''shSpk'', Str suffix, Str ''[spk'', Str suffix, Str ''Idx] = '', Str idRepl,
               Str '';'', Endl])"

text \<open>
  The handler that \<open>genNeuronUpdate\<close> passes to \<open>genParallelGroup\<close> for a merged neuron
  update group, in two parts. The first part runs up to the call of \<open>simHandler\<close>. The
  methods \<open>getPrevQueueOffset\<close> and \<open>getCurrentQueueOffset\<close> of the merged group, the
  handler \<open>simHandler\<close> and the handler \<open>wuVarUpdateHandler\<close> are parameters: a handler
  is the function to the text it writes (and, for \<open>simHandler\<close>, the frame it leaves) or
  to the exception it throws; \<open>simHandler\<close> receives the two functions that emit a true
  spike and a spike-like event.
\<close>

definition genNeuronUpdate_simulate ::
  "((NeuronGroupInternal, 'r) MergedGroup \<Rightarrow> string) \<Rightarrow>
   ((NeuronGroupInternal, 'r) MergedGroup \<Rightarrow> string) \<Rightarrow>
   ((NeuronGroupInternal, 'r) MergedGroup \<Rightarrow> Substitutions \<Rightarrow>
      (Substitutions \<Rightarrow> error + CodeStream) \<Rightarrow> (Substitutions \<Rightarrow> error + CodeStream) \<Rightarrow>
      error + (CodeStream \<times> Substitutions)) \<Rightarrow>
   (NeuronGroupInternal, 'r) MergedGroup \<Rightarrow> Substitutions \<Rightarrow>
   error + (CodeStream \<times> Substitutions)" where
  "genNeuronUpdate_simulate getPrevQueueOffset getCurrentQueueOffset simHandler ng popSubs =
     (case getArchetype ng of
        Inl e \<Rightarrow> Inl e
      | Inr archetype \<Rightarrow>
          (case (if isSimRNGRequired archetype then
                   (case getVarSubstitution ''id'' popSubs of
                      Inl e \<Rightarrow> Inl e
                    | Inr idRepl \<Rightarrow>
                        addVarSubstitution ''rng'' (''&group->rng['' @ idRepl @ '']'') False popSubs)
                 else Inr popSubs) of
             Inl e \<Rightarrow> Inl e
           | Inr popSubs1 \<Rightarrow>
               (case getVarSubstitution ''id'' popSubs1 of
                  Inl e \<Rightarrow> Inl e
                | Inr idRepl \<Rightarrow>
                    (case simHandler ng popSubs1 (\<lambda>subs. genEmitSpike subs '''')
                            (\<lambda>subs. genEmitSpike subs ''Evnt'') of
                       Inl e \<Rightarrow> Inl e
                     | Inr (simBody, popSubs2) \<Rightarrow>
                         Inr ((if isDelayRequired archetype
                               then [Str ''const unsigned int readDelayOffset = '',
                                     Str (getPrevQueueOffset ng), Str '';'', Endl,
                                     Str ''const unsigned int writeDelayOffset = '',
                                     Str (getCurrentQueueOffset ng), Str '';'', Endl]
                               else []) @
                              [Endl, Str ''if('', Str idRepl, Str '' < group->numNeurons)'',
                               ScopeOpen] @ simBody @ [ScopeClose],
                              popSubs2)))))"

text \<open>
  The second part: everything the handler writes after the scope of \<open>simHandler\<close>. The
  frame \<open>wuSubs\<close> is a child of \<open>popSubs\<close> in which \<open>id\<close> is replaced by \<open>n\<close>, with
  override.
\<close>

definition genNeuronUpdate_compactSpikes ::
  "((NeuronGroupInternal, 'r) MergedGroup \<Rightarrow> Substitutions \<Rightarrow> error + CodeStream) \<Rightarrow>
   (NeuronGroupInternal, 'r) MergedGroup \<Rightarrow> Substitutions \<Rightarrow> error + CodeStream" where
  "genNeuronUpdate_compactSpikes wuVarUpdateHandler ng popSubs =
     (case getArchetype ng of
        Inl e \<Rightarrow> Inl e
      | Inr archetype \<Rightarrow>
          (let queueOffset = (if isDelayRequired archetype then ''writeDelayOffset + '' else '''');
               os1 =
                 [Str ''barrier(CLK_LOCAL_MEM_FENCE);'', Endl] @
                 (if isSpikeEventRequired archetype then
                    [Str ''if (localId == 1)'', ScopeOpen,
                     Str ''if (shSpkEvntCount > 0)'', ScopeOpen,
                     Str ''shPosSpkEvnt = atomic_add(&group->spkCntEvnt''] @
                    (if isDelayRequired archetype
                     then [Str ''[*group->spkQuePtr], shSpkEvntCount);'', Endl]
                     else [Str ''[0], shSpkEvntCount);'', Endl]) @
                    [ScopeClose, ScopeClose, Str ''barrier(CLK_LOCAL_MEM_FENCE);'', Endl]
                  else []) @
                 (if getThresholdConditionCode archetype \<noteq> [] then
                    [Str ''if (localId == 0)'', ScopeOpen,
                     Str ''if (shSpkCount > 0)'', ScopeOpen,
                     Str ''shPosSpk = atomic_add(&group->spkCnt''] @
                    (if isDelayRequired archetype \<and> isTrueSpikeRequired archetype
                     then [Str ''[*group->spkQuePtr], shSpkCount);'', Endl]
                     else [Str ''[0], shSpkCount);'', Endl]) @
                    [ScopeClose, ScopeClose, Str ''barrier(CLK_LOCAL_MEM_FENCE);'', Endl]
                  else []) @
                 (if isSpikeEventRequired archetype then
                    [Str ''if (localId < shSpkEvntCount)'', ScopeOpen,
                     Str ''group->spkEvnt['', Str queueOffset,
                     Str ''shPosSpkEvnt + localId] = shSpkEvnt[localId];'', Endl, ScopeClose]
                  else [])
           in if getThresholdConditionCode archetype \<noteq> [] then
                (let queueOffsetTrueSpk =
                       (if isTrueSpikeRequired archetype then queueOffset else '''')
                 in case addVarSubstitution ''id'' ''n'' True (childOf popSubs) of
                      Inl e \<Rightarrow> Inl e
                    | Inr wuSubs \<Rightarrow>
                        (case wuVarUpdateHandler ng wuSubs of
                           Inl e \<Rightarrow> Inl e
                         | Inr wuBody \<Rightarrow>
                             Inr (os1 @
                                  [Str ''if (localId < shSpkCount)'', ScopeOpen,
                                   Str ''const unsigned int n = shSpk[localId];'', Endl] @
                                  wuBody @
                                  [Str ''group->spk['', Str queueOffsetTrueSpk,
                                   Str ''shPosSpk + localId] = n;'', Endl] @
                                  (if isSpikeTimeRequired archetype
                                   then [Str ''group->spk['', Str queueOffset, Str ''n] = t;'',
                                         Endl]
                                   else []) @
                                  [ScopeClose])))
              else Inr os1))"

text \<open>The handler: the first part, then the second on the frame that \<open>simHandler\<close> left.\<close>

definition genNeuronUpdate_groupHandler ::
  "((NeuronGroupInternal, 'r) MergedGroup \<Rightarrow> string) \<Rightarrow>
   ((NeuronGroupInternal, 'r) MergedGroup \<Rightarrow> string) \<Rightarrow>
   ((NeuronGroupInternal, 'r) MergedGroup \<Rightarrow> Substitutions \<Rightarrow>
      (Substitutions \<Rightarrow> error + CodeStream) \<Rightarrow> (Substitutions \<Rightarrow> error + CodeStream) \<Rightarrow>
      error + (CodeStream \<times> Substitutions)) \<Rightarrow>
   ((NeuronGroupInternal, 'r) MergedGroup \<Rightarrow> Substitutions \<Rightarrow> error + CodeStream) \<Rightarrow>
   (NeuronGroupInternal, 'r) MergedGroup \<Rightarrow> Substitutions \<Rightarrow>
   error + (CodeStream \<times> Substitutions)" where
  "genNeuronUpdate_groupHandler getPrevQueueOffset getCurrentQueueOffset simHandler
     wuVarUpdateHandler ng popSubs =
     (case genNeuronUpdate_simulate getPrevQueueOffset getCurrentQueueOffset simHandler ng popSubs of
        Inl e \<Rightarrow> Inl e
      | Inr (os1, popSubs2) \<Rightarrow>
          (case genNeuronUpdate_compactSpikes wuVarUpdateHandler ng popSubs2 of
             Inl e \<Rightarrow> Inl e
           | Inr os2 \<Rightarrow> Inr (os1 @ os2, popSubs2)))"

subsection \<open>The protocol, as the specification words it\<close>

text \<open>
  For the suffix \<open>S\<close> of a spike type: the designated thread reserves a range in the
  global buffer with \<open>atomic_add(&group->spkCnt<S>[...], shSpk<S>Count)\<close>, then a barrier;
  the threads with a local id below \<open>shSpk<S>Count\<close> write their staged spike to the
  global buffer at the reserved offset.
\<close>

definition reserveRange :: "string \<Rightarrow> string \<Rightarrow> bool \<Rightarrow> CodeStream" where
  "reserveRange designated suffix atQueuePtr =
     [Str (''if (localId == '' @ designated @ '')''), ScopeOpen,
      Str (''if (shSpk'' @ suffix @ ''Count > 0)''), ScopeOpen,
      Str (''shPosSpk'' @ suffix @ '' = atomic_add(&group->spkCnt'' @ suffix),
      Str ((if atQueuePtr then ''[*group->spkQuePtr]'' else ''[0]'') @
           '', shSpk'' @ suffix @ ''Count);''), Endl,
      ScopeClose, ScopeClose, Str ''barrier(CLK_LOCAL_MEM_FENCE);'', Endl]"

definition writeEvents :: "bool \<Rightarrow> CodeStream" where
  "writeEvents delayed =
     [Str ''if (localId < shSpkEvntCount)'', ScopeOpen,
      Str ''group->spkEvnt['', Str (if delayed then ''writeDelayOffset + '' else ''''),
      Str ''shPosSpkEvnt + localId] = shSpkEvnt[localId];'', Endl, ScopeClose]"

definition writeSpikes :: "bool \<Rightarrow> CodeStream \<Rightarrow> CodeStream \<Rightarrow> CodeStream" where
  "writeSpikes delayed wuBody afterWrite =
     [Str ''if (localId < shSpkCount)'', ScopeOpen,
      Str ''const unsigned int n = shSpk[localId];'', Endl] @ wuBody @
     [Str ''group->spk['', Str (if delayed then ''writeDelayOffset + '' else ''''),
      Str ''shPosSpk + localId] = n;'', Endl] @ afterWrite @ [ScopeClose]"

text \<open>
  Example: a neuron group with delay whose spike times are required and whose true spikes
  no synapse group requires, alone in its merged group; the weight update handler writes
  nothing; the frame of the handler replaces \<open>id\<close> by \<open>lid\<close>.
\<close>

definition ngTimed :: NeuronGroupInternal where
  "ngTimed = \<lparr>getNumNeurons = 100, isDelayRequired = True, getNumDelaySlots = 5,
     isSpikeEventRequired = False, isTrueSpikeRequired = False, isSpikeTimeRequired = True,
     isSimRNGRequired = False, getThresholdConditionCode = ''$(V) >= 10.0''\<rparr>"

definition timedGroup :: "(NeuronGroupInternal, unit) MergedGroup" where
  "timedGroup = \<lparr>getIndex = 0, getPrefix = ''NeuronUpdate'', getGroups = [ngTimed],
     getRole = ()\<rparr>"

definition noWuVarUpdate ::
  "(NeuronGroupInternal, unit) MergedGroup \<Rightarrow> Substitutions \<Rightarrow> error + CodeStream" where
  "noWuVarUpdate ng wuSubs = Inr []"

definition popSubsLid :: Substitutions where
  "popSubsLid = Frame [(''id'', ''lid'')] [] (Some kernelSubsT)"

text \<open>
  C1, as the claim states it, fails on this group: delay is required and spike times are
  required, but thread 0 adds the spike count to \<open>group->spkCnt[0]\<close>, not to
  \<open>group->spkCnt[*group->spkQuePtr]\<close>, and no statement writes to \<open>group->sT\<close>.
\<close>

theorem compactSpikes_counterexample:
  "isDelayRequired ngTimed \<and> isSpikeTimeRequired ngTimed \<and>
   genNeuronUpdate_compactSpikes noWuVarUpdate timedGroup popSubsLid =
     Inr [Str ''barrier(CLK_LOCAL_MEM_FENCE);'', Endl,
          Str ''if (localId == 0)'', ScopeOpen, Str ''if (shSpkCount > 0)'', ScopeOpen,
          Str ''shPosSpk = atomic_add(&group->spkCnt'', Str ''[0], shSpkCount);'', Endl,
          ScopeClose, ScopeClose, Str ''barrier(CLK_LOCAL_MEM_FENCE);'', Endl,
          Str ''if (localId < shSpkCount)'', ScopeOpen,
          Str ''const unsigned int n = shSpk[localId];'', Endl,
          Str ''group->spk['', Str '''', Str ''shPosSpk + localId] = n;'', Endl,
          Str ''group->spk['', Str ''writeDelayOffset + '', Str ''n] = t;'', Endl,
          ScopeClose]"
  by (simp add: genNeuronUpdate_compactSpikes_def getArchetype_def timedGroup_def ngTimed_def
      noWuVarUpdate_def popSubsLid_def childOf_def)

text \<open>
  C1, amended. After the handler and a barrier, for a merged neuron update group with
  archetype \<open>a\<close>: when \<open>a\<close> requires spike events, thread 1 reserves a range with
  \<open>atomic_add\<close> of \<open>shSpkEvntCount\<close> into \<open>group->spkCntEvnt\<close>, at \<open>*group->spkQuePtr\<close> when
  \<open>a\<close> requires delay and at 0 otherwise; when the threshold condition code of \<open>a\<close> is
  not empty, thread 0 reserves a range with \<open>atomic_add\<close> of \<open>shSpkCount\<close> into
  \<open>group->spkCnt\<close>, at \<open>*group->spkQuePtr\<close> when \<open>a\<close> requires both delay and true
  spikes and at 0 otherwise; each reservation is followed by a barrier; then the
  threads below \<open>shSpkEvntCount\<close> write their staged event to \<open>group->spkEvnt\<close> and the
  threads below \<open>shSpkCount\<close> write their staged spike \<open>n\<close> to \<open>group->spk\<close>, at the
  reserved position, after the weight update text written for \<open>n\<close>. Nothing follows
  the write of a true spike when \<open>a\<close> does not require spike times. The staging
  statements are those of \<open>genEmitSpike\<close>.
\<close>

theorem compactSpikes_protocol:
  assumes arch: "getArchetype ng = Inr a"
    and wu: "getThresholdConditionCode a \<noteq> [] \<longrightarrow>
               wuVarUpdateHandler ng (Frame [(''id'', ''n'')] [] (Some popSubs)) = Inr wuBody"
  shows "\<exists>afterWrite.
           genNeuronUpdate_compactSpikes wuVarUpdateHandler ng popSubs =
             Inr ([Str ''barrier(CLK_LOCAL_MEM_FENCE);'', Endl] @
                  (if isSpikeEventRequired a
                   then reserveRange ''1'' ''Evnt'' (isDelayRequired a) else []) @
                  (if getThresholdConditionCode a \<noteq> []
                   then reserveRange ''0'' '''' (isDelayRequired a \<and> isTrueSpikeRequired a)
                   else []) @
                  (if isSpikeEventRequired a then writeEvents (isDelayRequired a) else []) @
                  (if getThresholdConditionCode a \<noteq> []
                   then writeSpikes (isDelayRequired a \<and> isTrueSpikeRequired a) wuBody afterWrite
                   else [])) \<and>
           (\<not> isSpikeTimeRequired a \<longrightarrow> afterWrite = []) \<and>
           (getVarSubstitution ''id'' subs = Inr idRepl \<longrightarrow>
              genEmitSpike subs suffix =
                Inr [Str ''const unsigned int spk'', Str suffix, Str ''Idx = atomic_add(&shSpk'',
                     Str suffix, Str ''Count, 1);'', Endl,
                     Str ''shSpk'', Str suffix, Str ''[spk'', Str suffix, Str ''Idx] = '',
                     Str idRepl, Str '';'', Endl])"
proof -
  define afterWrite where
    "afterWrite = (if isSpikeTimeRequired a
                   then [Str ''group->spk['',
                         Str (if isDelayRequired a then ''writeDelayOffset + '' else ''''),
                         Str ''n] = t;'', Endl]
                   else [])"
  have staged: "getVarSubstitution ''id'' subs = Inr idRepl \<longrightarrow>
              genEmitSpike subs suffix =
                Inr [Str ''const unsigned int spk'', Str suffix, Str ''Idx = atomic_add(&shSpk'',
                     Str suffix, Str ''Count, 1);'', Endl,
                     Str ''shSpk'', Str suffix, Str ''[spk'', Str suffix, Str ''Idx] = '',
                     Str idRepl, Str '';'', Endl]"
    by (simp add: genEmitSpike_def)
  have none: "\<not> isSpikeTimeRequired a \<longrightarrow> afterWrite = []"
    by (simp add: afterWrite_def)
  have run: "genNeuronUpdate_compactSpikes wuVarUpdateHandler ng popSubs =
             Inr ([Str ''barrier(CLK_LOCAL_MEM_FENCE);'', Endl] @
                  (if isSpikeEventRequired a
                   then reserveRange ''1'' ''Evnt'' (isDelayRequired a) else []) @
                  (if getThresholdConditionCode a \<noteq> []
                   then reserveRange ''0'' '''' (isDelayRequired a \<and> isTrueSpikeRequired a)
                   else []) @
                  (if isSpikeEventRequired a then writeEvents (isDelayRequired a) else []) @
                  (if getThresholdConditionCode a \<noteq> []
                   then writeSpikes (isDelayRequired a \<and> isTrueSpikeRequired a) wuBody afterWrite
                   else []))"
  proof (cases "getThresholdConditionCode a \<noteq> []")
    case False
    then show ?thesis
      by (simp add: genNeuronUpdate_compactSpikes_def arch reserveRange_def writeEvents_def
          Let_def)
  next
    case True
    with wu have h: "wuVarUpdateHandler ng (Frame [(''id'', ''n'')] [] (Some popSubs)) = Inr wuBody"
      by simp
    show ?thesis
      using True
      by (simp add: genNeuronUpdate_compactSpikes_def arch childOf_def h reserveRange_def
          writeEvents_def writeSpikes_def afterWrite_def Let_def)
  qed
  show ?thesis
    by (rule exI [of _ afterWrite], intro conjI) (fact run, fact none, fact staged)
qed
lemma genNeuronUpdate_groupHandler_parts:
  assumes "genNeuronUpdate_simulate getPrevQueueOffset getCurrentQueueOffset simHandler ng popSubs =
             Inr (os1, popSubs2)"
    and "genNeuronUpdate_compactSpikes wuVarUpdateHandler ng popSubs2 = Inr os2"
  shows "genNeuronUpdate_groupHandler getPrevQueueOffset getCurrentQueueOffset simHandler
           wuVarUpdateHandler ng popSubs = Inr (os1 @ os2, popSubs2)"
  using assms by (simp add: genNeuronUpdate_groupHandler_def)

text \<open>
  Example: a neuron group that requires delay, spike events and true spikes, alone in its
  merged group.
\<close>

definition ngFull :: NeuronGroupInternal where
  "ngFull = \<lparr>getNumNeurons = 100, isDelayRequired = True, getNumDelaySlots = 5,
     isSpikeEventRequired = True, isTrueSpikeRequired = True, isSpikeTimeRequired = False,
     isSimRNGRequired = False, getThresholdConditionCode = ''$(V) >= 10.0''\<rparr>"

definition fullGroup :: "(NeuronGroupInternal, unit) MergedGroup" where
  "fullGroup = \<lparr>getIndex = 0, getPrefix = ''NeuronUpdate'', getGroups = [ngFull],
     getRole = ()\<rparr>"

theorem compactSpikes_protocol_witness:
  "getArchetype fullGroup = Inr ngFull \<and>
   genNeuronUpdate_compactSpikes noWuVarUpdate fullGroup popSubsLid =
     Inr [Str ''barrier(CLK_LOCAL_MEM_FENCE);'', Endl,
          Str ''if (localId == 1)'', ScopeOpen, Str ''if (shSpkEvntCount > 0)'', ScopeOpen,
          Str ''shPosSpkEvnt = atomic_add(&group->spkCntEvnt'',
          Str ''[*group->spkQuePtr], shSpkEvntCount);'', Endl,
          ScopeClose, ScopeClose, Str ''barrier(CLK_LOCAL_MEM_FENCE);'', Endl,
          Str ''if (localId == 0)'', ScopeOpen, Str ''if (shSpkCount > 0)'', ScopeOpen,
          Str ''shPosSpk = atomic_add(&group->spkCnt'',
          Str ''[*group->spkQuePtr], shSpkCount);'', Endl,
          ScopeClose, ScopeClose, Str ''barrier(CLK_LOCAL_MEM_FENCE);'', Endl,
          Str ''if (localId < shSpkEvntCount)'', ScopeOpen,
          Str ''group->spkEvnt['', Str ''writeDelayOffset + '',
          Str ''shPosSpkEvnt + localId] = shSpkEvnt[localId];'', Endl, ScopeClose,
          Str ''if (localId < shSpkCount)'', ScopeOpen,
          Str ''const unsigned int n = shSpk[localId];'', Endl,
          Str ''group->spk['', Str ''writeDelayOffset + '',
          Str ''shPosSpk + localId] = n;'', Endl,
          ScopeClose] \<and>
   genEmitSpike popSubsLid ''Evnt'' =
     Inr [Str ''const unsigned int spk'', Str ''Evnt'', Str ''Idx = atomic_add(&shSpk'',
          Str ''Evnt'', Str ''Count, 1);'', Endl,
          Str ''shSpk'', Str ''Evnt'', Str ''[spk'', Str ''Evnt'', Str ''Idx] = '', Str ''lid'',
          Str '';'', Endl]"
proof -
  have arch: "getArchetype fullGroup = Inr ngFull"
    by (simp add: getArchetype_def fullGroup_def)
  have wu: "getThresholdConditionCode ngFull \<noteq> [] \<longrightarrow>
      noWuVarUpdate fullGroup (Frame [(''id'', ''n'')] [] (Some popSubsLid)) = Inr []"
    by (simp add: noWuVarUpdate_def)
  have lid: "getVarSubstitution ''id'' popSubsLid = Inr ''lid''"
    by (simp add: popSubsLid_def)
  from compactSpikes_protocol
    [where wuVarUpdateHandler = noWuVarUpdate and ng = fullGroup and a = ngFull
       and popSubs = popSubsLid and wuBody = "[]"
       and subs = popSubsLid and idRepl = "''lid''" and suffix = "''Evnt''", OF arch wu]
  obtain afterWrite where
    run: "genNeuronUpdate_compactSpikes noWuVarUpdate fullGroup popSubsLid =
             Inr ([Str ''barrier(CLK_LOCAL_MEM_FENCE);'', Endl] @
                  (if isSpikeEventRequired ngFull
                   then reserveRange ''1'' ''Evnt'' (isDelayRequired ngFull) else []) @
                  (if getThresholdConditionCode ngFull \<noteq> []
                   then reserveRange ''0'' ''''
                          (isDelayRequired ngFull \<and> isTrueSpikeRequired ngFull)
                   else []) @
                  (if isSpikeEventRequired ngFull then writeEvents (isDelayRequired ngFull)
                   else []) @
                  (if getThresholdConditionCode ngFull \<noteq> []
                   then writeSpikes (isDelayRequired ngFull \<and> isTrueSpikeRequired ngFull) []
                          afterWrite
                   else []))"
    and none: "\<not> isSpikeTimeRequired ngFull \<longrightarrow> afterWrite = []"
    and staged: "getVarSubstitution ''id'' popSubsLid = Inr ''lid'' \<longrightarrow>
              genEmitSpike popSubsLid ''Evnt'' =
                Inr [Str ''const unsigned int spk'', Str ''Evnt'', Str ''Idx = atomic_add(&shSpk'',
                     Str ''Evnt'', Str ''Count, 1);'', Endl,
                     Str ''shSpk'', Str ''Evnt'', Str ''[spk'', Str ''Evnt'', Str ''Idx] = '',
                     Str ''lid'', Str '';'', Endl]"
    by blast
  from none have "afterWrite = []"
    by (simp add: ngFull_def)
  with run have compact: "genNeuronUpdate_compactSpikes noWuVarUpdate fullGroup popSubsLid =
     Inr [Str ''barrier(CLK_LOCAL_MEM_FENCE);'', Endl,
          Str ''if (localId == 1)'', ScopeOpen, Str ''if (shSpkEvntCount > 0)'', ScopeOpen,
          Str ''shPosSpkEvnt = atomic_add(&group->spkCntEvnt'',
          Str ''[*group->spkQuePtr], shSpkEvntCount);'', Endl,
          ScopeClose, ScopeClose, Str ''barrier(CLK_LOCAL_MEM_FENCE);'', Endl,
          Str ''if (localId == 0)'', ScopeOpen, Str ''if (shSpkCount > 0)'', ScopeOpen,
          Str ''shPosSpk = atomic_add(&group->spkCnt'',
          Str ''[*group->spkQuePtr], shSpkCount);'', Endl,
          ScopeClose, ScopeClose, Str ''barrier(CLK_LOCAL_MEM_FENCE);'', Endl,
          Str ''if (localId < shSpkEvntCount)'', ScopeOpen,
          Str ''group->spkEvnt['', Str ''writeDelayOffset + '',
          Str ''shPosSpkEvnt + localId] = shSpkEvnt[localId];'', Endl, ScopeClose,
          Str ''if (localId < shSpkCount)'', ScopeOpen,
          Str ''const unsigned int n = shSpk[localId];'', Endl,
          Str ''group->spk['', Str ''writeDelayOffset + '',
          Str ''shPosSpk + localId] = n;'', Endl,
          ScopeClose]"
    by (simp add: ngFull_def reserveRange_def writeEvents_def writeSpikes_def)
  from staged lid have emit: "genEmitSpike popSubsLid ''Evnt'' =
     Inr [Str ''const unsigned int spk'', Str ''Evnt'', Str ''Idx = atomic_add(&shSpk'',
          Str ''Evnt'', Str ''Count, 1);'', Endl,
          Str ''shSpk'', Str ''Evnt'', Str ''[spk'', Str ''Evnt'', Str ''Idx] = '', Str ''lid'',
          Str '';'', Endl]"
    by simp
  from arch compact emit show ?thesis
    by (intro conjI)
qed

end
